theory Spec2Isabelle
  imports Main "HOL-Library.AList"
begin

section \<open>The JavaScript fragment used by BasicConfigStore.js\<close>

text \<open>
  The store keeps its tree in ordinary JavaScript objects and hands values in and out by
  reference, so the model has an explicit object heap. A value is a primitive, a reference
  to a heap object, a caller function (a handler) or an opaque built-in object of the
  realm. Numbers are restricted to the integers and \<open>NaN\<close>: the only arithmetic of the
  source is \<open>_list.length - 1\<close>.
\<close>

datatype val =
    Undefined
  | Null
  | Bool bool
  | Num int
  | NaN
  | Str string
  | Ref nat
  | Fn nat
  | Builtin string

text \<open>
  \<open>TypeError\<close> is the exception the source can raise. \<open>Unmodelled\<close> marks an
  execution that leaves the fragment described here (property access on strings and on
  function objects, replacing an object's prototype, number parsing of strings, a dangling
  reference); nothing is claimed about such executions.
\<close>

datatype error = TypeError | Unmodelled

text \<open>
  An object is the list of its own properties in insertion order. Every heap object is a
  plain object whose prototype is \<open>Object.prototype\<close>; \<open>Object.prototype\<close> itself
  lives at address 0, so that writes through the path \<open>__proto__\<close> are writes to a
  heap object shared by every plain object.
\<close>

type_synonym obj = "(string \<times> val) list"

type_synonym jsheap = "obj list"

definition object_prototype :: obj where
  "object_prototype =
     [(''constructor'', Builtin ''Object''),
      (''__defineGetter__'', Builtin ''Object.prototype.__defineGetter__''),
      (''__defineSetter__'', Builtin ''Object.prototype.__defineSetter__''),
      (''hasOwnProperty'', Builtin ''Object.prototype.hasOwnProperty''),
      (''__lookupGetter__'', Builtin ''Object.prototype.__lookupGetter__''),
      (''__lookupSetter__'', Builtin ''Object.prototype.__lookupSetter__''),
      (''isPrototypeOf'', Builtin ''Object.prototype.isPrototypeOf''),
      (''propertyIsEnumerable'', Builtin ''Object.prototype.propertyIsEnumerable''),
      (''toString'', Builtin ''Object.prototype.toString''),
      (''valueOf'', Builtin ''Object.prototype.valueOf''),
      (''toLocaleString'', Builtin ''Object.prototype.toLocaleString'')]"

definition number_prototype_keys :: "string list" where
  "number_prototype_keys =
     [''constructor'', ''toExponential'', ''toFixed'', ''toLocaleString'', ''toPrecision'',
      ''toString'', ''valueOf'']"

definition boolean_prototype_keys :: "string list" where
  "boolean_prototype_keys = [''constructor'', ''toString'', ''valueOf'']"

text \<open>ToBoolean, as used by \<open>||\<close> and \<open>if\<close>.\<close>

fun truthy :: "val \<Rightarrow> bool" where
  "truthy Undefined = False"
| "truthy Null = False"
| "truthy (Bool b) = b"
| "truthy (Num n) = (n \<noteq> 0)"
| "truthy NaN = False"
| "truthy (Str s) = (s \<noteq> [])"
| "truthy (Ref a) = True"
| "truthy (Fn k) = True"
| "truthy (Builtin b) = True"

text \<open>
  \<open>proto_get h k\<close> is the data property \<open>k\<close> of \<open>Object.prototype\<close>;
  \<open>inherited h k\<close> is what a plain object without own property \<open>k\<close> yields for
  \<open>k\<close>: the \<open>__proto__\<close> accessor answers with the object's prototype.
\<close>

definition proto_get :: "jsheap \<Rightarrow> string \<Rightarrow> val" where
  "proto_get h k =
     (if 0 < length h then (case map_of (h ! 0) k of Some v \<Rightarrow> v | None \<Rightarrow> Undefined)
      else Undefined)"

definition inherited :: "jsheap \<Rightarrow> string \<Rightarrow> val" where
  "inherited h k = (if k = ''__proto__'' then Ref 0 else proto_get h k)"

text \<open>The property read \<open>target[k]\<close>.\<close>

fun js_get :: "jsheap \<Rightarrow> val \<Rightarrow> string \<Rightarrow> error + val" where
  "js_get h Undefined k = Inl TypeError"
| "js_get h Null k = Inl TypeError"
| "js_get h (Ref a) k =
     (if a < length h then
        (case map_of (h ! a) k of
           Some v \<Rightarrow> Inr v
         | None \<Rightarrow>
             if a = 0 then Inr (if k = ''__proto__'' then Null else Undefined)
             else Inr (inherited h k))
      else Inl Unmodelled)"
| "js_get h (Num n) k =
     (if k = ''__proto__'' then Inr (Builtin ''Number.prototype'')
      else if k \<in> set number_prototype_keys then Inr (Builtin (''Number.prototype.'' @ k))
      else Inr (proto_get h k))"
| "js_get h NaN k =
     (if k = ''__proto__'' then Inr (Builtin ''Number.prototype'')
      else if k \<in> set number_prototype_keys then Inr (Builtin (''Number.prototype.'' @ k))
      else Inr (proto_get h k))"
| "js_get h (Bool b) k =
     (if k = ''__proto__'' then Inr (Builtin ''Boolean.prototype'')
      else if k \<in> set boolean_prototype_keys then Inr (Builtin (''Boolean.prototype.'' @ k))
      else Inr (proto_get h k))"
| "js_get h (Str s) k = Inl Unmodelled"
| "js_get h (Fn f) k = Inl Unmodelled"
| "js_get h (Builtin b) k = Inl Unmodelled"

fun is_primitive :: "val \<Rightarrow> bool" where
  "is_primitive Undefined = True"
| "is_primitive Null = True"
| "is_primitive (Bool b) = True"
| "is_primitive (Num n) = True"
| "is_primitive NaN = True"
| "is_primitive (Str s) = True"
| "is_primitive (Ref a) = False"
| "is_primitive (Fn k) = False"
| "is_primitive (Builtin b) = False"

text \<open>
  The assignment \<open>target[k] = v\<close> in strict mode (the file starts with
  \<open>'use strict'\<close>): on an object it creates or updates the own property, except that
  \<open>__proto__\<close> reaches the inherited setter, which ignores a primitive and would
  otherwise replace the prototype; on a primitive it throws.
\<close>

fun js_set :: "jsheap \<Rightarrow> val \<Rightarrow> string \<Rightarrow> val \<Rightarrow> error + jsheap" where
  "js_set h Undefined k v = Inl TypeError"
| "js_set h Null k v = Inl TypeError"
| "js_set h (Ref a) k v =
     (if a < length h then
        (if k = ''__proto__'' \<and> map_of (h ! a) k = None then
           (if is_primitive v \<and> v \<noteq> Null then Inr h else Inl Unmodelled)
         else Inr (h[a := AList.update k v (h ! a)]))
      else Inl Unmodelled)"
| "js_set h (Bool b) k v = (if k = ''__proto__'' then Inl Unmodelled else Inl TypeError)"
| "js_set h (Num n) k v = (if k = ''__proto__'' then Inl Unmodelled else Inl TypeError)"
| "js_set h NaN k v = (if k = ''__proto__'' then Inl Unmodelled else Inl TypeError)"
| "js_set h (Str s) k v = (if k = ''__proto__'' then Inl Unmodelled else Inl TypeError)"
| "js_set h (Fn f) k v = Inl Unmodelled"
| "js_set h (Builtin b) k v = Inl Unmodelled"

text \<open>The object literal \<open>{}\<close>: a fresh object without own properties.\<close>

definition alloc :: "jsheap \<Rightarrow> nat \<times> jsheap" where
  "alloc h = (length h, h @ [[]])"

text \<open>The idiom \<open>obj[name] || (obj[name] = {})\<close> of the source.\<close>

definition get_or_create :: "jsheap \<Rightarrow> val \<Rightarrow> string \<Rightarrow> error + (val \<times> jsheap)" where
  "get_or_create h obj name =
     (case js_get h obj name of
        Inl e \<Rightarrow> Inl e
      | Inr v \<Rightarrow>
          if truthy v then Inr (v, h)
          else (case alloc h of (a, h1) \<Rightarrow>
                  (case js_set h1 obj name (Ref a) of
                     Inl e \<Rightarrow> Inl e
                   | Inr h2 \<Rightarrow> Inr (Ref a, h2))))"

text \<open>
  A call \<open>v.m(...)\<close> where \<open>v\<close> is not one of the store's arrays: it throws unless
  \<open>v\<close> happens to have a callable property \<open>m\<close>, which is outside the fragment.
\<close>

definition method_error :: "jsheap \<Rightarrow> val \<Rightarrow> string \<Rightarrow> error" where
  "method_error h v m =
     (case js_get h v m of
        Inl e \<Rightarrow> e
      | Inr u \<Rightarrow> if is_primitive u then TypeError else Unmodelled)"

text \<open>The global \<open>isNaN\<close>, which converts its argument to a number first.\<close>

fun js_isNaN :: "val \<Rightarrow> error + bool" where
  "js_isNaN Undefined = Inr True"
| "js_isNaN Null = Inr False"
| "js_isNaN (Bool b) = Inr False"
| "js_isNaN (Num n) = Inr False"
| "js_isNaN NaN = Inr True"
| "js_isNaN (Str s) = Inl Unmodelled"
| "js_isNaN (Ref a) = Inl Unmodelled"
| "js_isNaN (Fn k) = Inl Unmodelled"
| "js_isNaN (Builtin b) = Inl Unmodelled"

text \<open>ToIntegerOrInfinity on the values for which \<open>isNaN\<close> is false.\<close>

fun to_integer :: "val \<Rightarrow> int option" where
  "to_integer Null = Some 0"
| "to_integer (Bool b) = Some (if b then 1 else 0)"
| "to_integer (Num n) = Some n"
| "to_integer v = None"

text \<open>\<open>list.splice(start, 1)\<close>: a negative start counts from the end.\<close>

definition splice1 :: "int \<Rightarrow> 'a list \<Rightarrow> 'a list" where
  "splice1 start l =
     (let len = int (length l);
          s = (if start < 0 then max (len + start) 0 else min start len)
      in take (nat s) l @ drop (nat s + 1) l)"

text \<open>\<open>path.split('.')\<close>.\<close>

fun split_sep :: "char \<Rightarrow> string \<Rightarrow> string list" where
  "split_sep c [] = [[]]"
| "split_sep c (x # xs) =
     (if x = c then [] # split_sep c xs
      else (case split_sep c xs of
              [] \<Rightarrow> [[x]]
            | y # ys \<Rightarrow> (x # y) # ys))"

section \<open>BasicConfigStore\<close>

text \<open>
  The private state of one instance: \<open>_data\<close> (the address of the root object),
  \<open>_observerList\<close> (a plain object whose own properties are arrays of handlers; it is
  never handed out, so its own properties are kept in the record, while its inherited
  properties are looked up in the heap) and \<open>_id\<close>. The world is the heap together with
  all instances created so far; instance 0 is the module's default instance \<open>global\<close>.
\<close>

record store =
  data :: nat
  observerList :: "(string \<times> val list) list"
  ident :: string

record world =
  heap :: jsheap
  stores :: "store list"

definition separator :: char where
  "separator = CHR ''.''"

text \<open>\<open>path.match(/\./)\<close> is truthy exactly when the path contains a dot.\<close>

definition path_match :: "string \<Rightarrow> bool" where
  "path_match path = (separator \<in> set path)"

definition getPropertyName :: "string \<Rightarrow> string" where
  "getPropertyName path =
     (if path_match path then
        (let segs = split_sep separator path;
             lastIndex = length segs - 1
         in segs ! lastIndex)
      else path)"

text \<open>
  \<open>segs.every(callback)\<close>: the callback runs on the elements in order and the loop
  stops after the first call that returns false.
\<close>

fun every :: "nat \<Rightarrow> nat \<Rightarrow> string list \<Rightarrow> val \<Rightarrow> jsheap \<Rightarrow> error + (val \<times> jsheap)" where
  "every lastIndex index [] obj h = Inr (obj, h)"
| "every lastIndex index (name # rest) obj h =
     (case get_or_create h obj name of
        Inl e \<Rightarrow> Inl e
      | Inr (obj', h') \<Rightarrow>
          if index + 1 < lastIndex then every lastIndex (index + 1) rest obj' h'
          else Inr (obj', h'))"

definition getParentObject :: "nat \<Rightarrow> string \<Rightarrow> world \<Rightarrow> error + (val \<times> world)" where
  "getParentObject i path w =
     (let obj0 = Ref (data (stores w ! i)) in
      if path_match path then
        (let segs = split_sep separator path;
             lastIndex = length segs - 1
         in case every lastIndex 0 segs obj0 (heap w) of
              Inl e \<Rightarrow> Inl e
            | Inr (obj', h') \<Rightarrow> Inr (obj', w\<lparr>heap := h'\<rparr>))
      else Inr (obj0, w))"

text \<open>
  \<open>getObserverList\<close> returns \<open>_observerList[key] || (_observerList[key] = [])\<close>. The
  result is the array stored under \<open>key\<close>, or a truthy inherited value that is not an
  array of the store.
\<close>

datatype listref = Arr string | NonArr val

definition getObserverList :: "nat \<Rightarrow> string \<Rightarrow> world \<Rightarrow> listref \<times> world" where
  "getObserverList i key w =
     (let s = stores w ! i in
      case map_of (observerList s) key of
        Some l \<Rightarrow> (Arr key, w)
      | None \<Rightarrow>
          (let v = inherited (heap w) key in
           if truthy v then (NonArr v, w)
           else (Arr key,
                 w\<lparr>stores := (stores w)[i := s\<lparr>observerList :=
                                   AList.update key [] (observerList s)\<rparr>]\<rparr>)))"

definition observer_key :: "store \<Rightarrow> string" where
  "observer_key s = ''bc'' @ ident s"

text \<open>
  In \<open>getObserverIndex\<close> the fallback object of \<open>observer['bc' + _id] || {}\<close> is never
  stored anywhere, so it is not allocated: reading it yields what every empty plain object
  yields.
\<close>

definition getObserverIndex :: "nat \<Rightarrow> val \<Rightarrow> string \<Rightarrow> world \<Rightarrow> error + val" where
  "getObserverIndex i observer property w =
     (case js_get (heap w) observer (observer_key (stores w ! i)) of
        Inl e \<Rightarrow> Inl e
      | Inr basicConfig \<Rightarrow>
          if truthy basicConfig then js_get (heap w) basicConfig property
          else Inr (inherited (heap w) property))"

definition setObserverIndex :: "nat \<Rightarrow> val \<Rightarrow> string \<Rightarrow> val \<Rightarrow> world \<Rightarrow> error + world" where
  "setObserverIndex i observer property index w =
     (case get_or_create (heap w) observer (observer_key (stores w ! i)) of
        Inl e \<Rightarrow> Inl e
      | Inr (basicConfig, h1) \<Rightarrow>
          (case js_set h1 basicConfig property index of
             Inl e \<Rightarrow> Inl e
           | Inr h2 \<Rightarrow> Inr (w\<lparr>heap := h2\<rparr>)))"

text \<open>
  Handlers are caller code. Their behaviour is a parameter \<open>hs\<close> of the model: handler
  \<open>k\<close>, called with the notification record, turns a world into a new world or throws.
  \<open>call_handler\<close> is \<open>f.call(null, {property, value})\<close>.
\<close>

type_synonym notification = "string \<times> val"

type_synonym handlers = "nat \<Rightarrow> notification \<Rightarrow> world \<Rightarrow> error + world"

definition call_handler :: "handlers \<Rightarrow> val \<Rightarrow> notification \<Rightarrow> world \<Rightarrow> error + world" where
  "call_handler hs f d w =
     (case f of
        Fn k \<Rightarrow> hs k d w
      | _ \<Rightarrow> Inl (method_error (heap w) f ''call''))"

text \<open>
  The loop \<open>while (i--) _list[i].call(...)\<close> over the order in which it visits the copied
  array. Besides the outcome it returns the calls made, in order.
\<close>

fun call_all ::
  "handlers \<Rightarrow> val list \<Rightarrow> notification \<Rightarrow> world \<Rightarrow> (val \<times> notification) list \<times> (error + world)" where
  "call_all hs [] d w = ([], Inr w)"
| "call_all hs (f # fs) d w =
     (case call_handler hs f d w of
        Inl e \<Rightarrow> ([(f, d)], Inl e)
      | Inr w' \<Rightarrow> (case call_all hs fs d w' of (t, r) \<Rightarrow> ((f, d) # t, r)))"

definition notify ::
  "handlers \<Rightarrow> nat \<Rightarrow> string \<Rightarrow> val \<Rightarrow> world \<Rightarrow> (val \<times> notification) list \<times> (error + world)" where
  "notify hs i property v w =
     (case map_of (observerList (stores w ! i)) property of
        Some l \<Rightarrow> (let olist = l in call_all hs (rev olist) (property, v) w)
      | None \<Rightarrow>
          (let u = inherited (heap w) property in
           if truthy u then ([], Inl (method_error (heap w) u ''concat''))
           else ([], Inr w)))"

text \<open>\<open>_list.push(handler)\<close> and \<open>_list.splice(_index, 1)\<close> on the result of
  \<open>getObserverList\<close>.\<close>

definition list_push :: "nat \<Rightarrow> listref \<Rightarrow> val \<Rightarrow> world \<Rightarrow> error + (nat \<times> world)" where
  "list_push i r handler w =
     (case r of
        NonArr u \<Rightarrow> Inl (method_error (heap w) u ''push'')
      | Arr key \<Rightarrow>
          (let s = stores w ! i in
           case map_of (observerList s) key of
             None \<Rightarrow> Inl Unmodelled
           | Some l \<Rightarrow>
               Inr (length l + 1,
                    w\<lparr>stores := (stores w)[i := s\<lparr>observerList :=
                                      AList.update key (l @ [handler]) (observerList s)\<rparr>]\<rparr>)))"

definition list_splice :: "nat \<Rightarrow> listref \<Rightarrow> val \<Rightarrow> world \<Rightarrow> error + world" where
  "list_splice i r idx w =
     (case r of
        NonArr u \<Rightarrow> Inl (method_error (heap w) u ''splice'')
      | Arr key \<Rightarrow>
          (let s = stores w ! i in
           case (map_of (observerList s) key, to_integer idx) of
             (Some l, Some n) \<Rightarrow>
               Inr (w\<lparr>stores := (stores w)[i := s\<lparr>observerList :=
                                     AList.update key (splice1 n l) (observerList s)\<rparr>]\<rparr>)
           | _ \<Rightarrow> Inl Unmodelled))"

definition observeConfig :: "nat \<Rightarrow> val \<Rightarrow> string \<Rightarrow> val \<Rightarrow> world \<Rightarrow> error + world" where
  "observeConfig i observer property handler w =
     (if i < length (stores w) then
        (case getObserverList i property w of (olist, w1) \<Rightarrow>
           (case getObserverIndex i observer property w1 of
              Inl e \<Rightarrow> Inl e
            | Inr idx \<Rightarrow>
                (case js_isNaN idx of
                   Inl e \<Rightarrow> Inl e
                 | Inr True \<Rightarrow>
                     (case list_push i olist handler w1 of
                        Inl e \<Rightarrow> Inl e
                      | Inr (len, w2) \<Rightarrow>
                          setObserverIndex i observer property (Num (int len - 1)) w2)
                 | Inr False \<Rightarrow> Inr w1)))
      else Inl Unmodelled)"

definition unobserveConfig :: "nat \<Rightarrow> val \<Rightarrow> string \<Rightarrow> world \<Rightarrow> error + world" where
  "unobserveConfig i observer property w =
     (if i < length (stores w) then
        (case getObserverList i property w of (olist, w1) \<Rightarrow>
           (case getObserverIndex i observer property w1 of
              Inl e \<Rightarrow> Inl e
            | Inr idx \<Rightarrow>
                (case js_isNaN idx of
                   Inl e \<Rightarrow> Inl e
                 | Inr False \<Rightarrow>
                     (case list_splice i olist idx w1 of
                        Inl e \<Rightarrow> Inl e
                      | Inr w2 \<Rightarrow> setObserverIndex i observer property NaN w2)
                 | Inr True \<Rightarrow> Inr w1)))
      else Inl Unmodelled)"

definition getConfigProperty :: "nat \<Rightarrow> string \<Rightarrow> world \<Rightarrow> error + (val \<times> world)" where
  "getConfigProperty i property w =
     (if i < length (stores w) then
        (let name = getPropertyName property in
         case getParentObject i property w of
           Inl e \<Rightarrow> Inl e
         | Inr (parent, w1) \<Rightarrow>
             (case js_get (heap w1) parent name of
                Inl e \<Rightarrow> Inl e
              | Inr v \<Rightarrow> Inr (v, w1)))
      else Inl Unmodelled)"

definition setConfigProperty ::
  "handlers \<Rightarrow> nat \<Rightarrow> string \<Rightarrow> val \<Rightarrow> world \<Rightarrow> (val \<times> notification) list \<times> (error + world)" where
  "setConfigProperty hs i property v w =
     (if i < length (stores w) then
        (let name = getPropertyName property in
         case getParentObject i property w of
           Inl e \<Rightarrow> ([], Inl e)
         | Inr (parent, w1) \<Rightarrow>
             (case js_set (heap w1) parent name v of
                Inl e \<Rightarrow> ([], Inl e)
              | Inr h2 \<Rightarrow> notify hs i property v (w1\<lparr>heap := h2\<rparr>)))
      else ([], Inl Unmodelled))"

text \<open>
  \<open>createConfig\<close> runs the constructor: a fresh root object, an empty observer list and
  an identifier. The identifier comes from \<open>Math.random\<close> and the clock, so it is an
  argument here. The result is the handle of the new instance.
\<close>

definition createConfig :: "string \<Rightarrow> world \<Rightarrow> nat \<times> world" where
  "createConfig new_id w =
     (case alloc (heap w) of (a, h1) \<Rightarrow>
        (length (stores w),
         w\<lparr>heap := h1,
           stores := stores w @ [\<lparr>data = a, observerList = [], ident = new_id\<rparr>]\<rparr>))"

text \<open>
  Loading the module: the realm holds \<open>Object.prototype\<close> only, and
  \<open>var global = new BasicConfigStore()\<close> creates instance 0.
\<close>

definition realm :: world where
  "realm = \<lparr>heap = [object_prototype], stores = []\<rparr>"

definition module_init :: "string \<Rightarrow> world" where
  "module_init global_id = snd (createConfig global_id realm)"

section \<open>Auxiliary notions\<close>

text \<open>
  \<open>descend\<close> is the traversal of \<open>getParentObject\<close> without the index bookkeeping
  of \<open>every\<close>; \<open>resolve\<close> is the same traversal as a pure read, defined only when
  every link is already truthy. Both are related to the source's loop by lemmas below.
\<close>

fun descend :: "string list \<Rightarrow> val \<Rightarrow> jsheap \<Rightarrow> error + (val \<times> jsheap)" where
  "descend [] obj h = Inr (obj, h)"
| "descend (n # ns) obj h =
     (case get_or_create h obj n of
        Inl e \<Rightarrow> Inl e
      | Inr (obj', h') \<Rightarrow> descend ns obj' h')"

fun resolve :: "string list \<Rightarrow> val \<Rightarrow> jsheap \<Rightarrow> val option" where
  "resolve [] obj h = Some obj"
| "resolve (n # ns) obj h =
     (case js_get h obj n of
        Inl e \<Rightarrow> None
      | Inr v \<Rightarrow> if truthy v then resolve ns v h else None)"


text \<open>The handler sequence registered for a path, if the array exists.\<close>

definition handlers_of :: "nat \<Rightarrow> string \<Rightarrow> world \<Rightarrow> val list option" where
  "handlers_of i p w = map_of (observerList (stores w ! i)) p"

text \<open>
  The observer's private index table for instance \<open>i\<close> (the object stored on the
  observer under \<open>'bc' + _id\<close>) and the entry recorded in it for a path.
\<close>

definition index_table :: "nat \<Rightarrow> val \<Rightarrow> world \<Rightarrow> nat option" where
  "index_table i ob w =
     (case js_get (heap w) ob (observer_key (stores w ! i)) of
        Inr (Ref t) \<Rightarrow> if t < length (heap w) then Some t else None
      | _ \<Rightarrow> None)"

definition recorded_index :: "nat \<Rightarrow> val \<Rightarrow> string \<Rightarrow> world \<Rightarrow> val option" where
  "recorded_index i ob p w =
     (case index_table i ob w of
        None \<Rightarrow> None
      | Some t \<Rightarrow> map_of (heap w ! t) p)"

text \<open>
  Handler behaviour for the re-entrancy scenarios: handler \<open>k\<close> calls
  \<open>unobserveConfig(ob, p)\<close> on instance \<open>i\<close>; every other handler does nothing.
\<close>

definition unobserve_in_handler :: "nat \<Rightarrow> nat \<Rightarrow> val \<Rightarrow> string \<Rightarrow> handlers" where
  "unobserve_in_handler i k ob p = (\<lambda>k' d u. if k' = k then unobserveConfig i ob p u else Inr u)"

text \<open>Handlers that return without touching anything.\<close>

definition pure_handlers :: handlers where
  "pure_handlers k d u = Inr u"

text \<open>
  A world with the default instance only: its root is object 1, and the objects after
  \<open>Object.prototype\<close> and the observer list are given.
\<close>

definition default_world :: "obj list \<Rightarrow> (string \<times> val list) list \<Rightarrow> world" where
  "default_world objs ol =
     \<lparr>heap = object_prototype # objs,
      stores = [\<lparr>data = 1, observerList = ol, ident = ''G''\<rparr>]\<rparr>"


definition intermediates :: "string \<Rightarrow> string list" where
  "intermediates p = butlast (split_sep separator p)"

definition root_of :: "nat \<Rightarrow> world \<Rightarrow> val" where
  "root_of i w = Ref (data (stores w ! i))"

text \<open>
  The step from heap \<open>h\<close> to heap \<open>h'\<close> keeps the path \<open>ns\<close> when every segment
  of \<open>ns\<close> reads in \<open>h'\<close> as it did in \<open>h\<close>, on the object that the segments
  before it lead to in \<open>h\<close>.
\<close>

definition path_kept :: "string list \<Rightarrow> val \<Rightarrow> jsheap \<Rightarrow> jsheap \<Rightarrow> bool" where
  "path_kept ns root h h' \<longleftrightarrow>
     (\<forall>j < length ns. \<forall>obj. resolve (take j ns) root h = Some obj \<longrightarrow>
        js_get h' obj (ns ! j) = js_get h obj (ns ! j))"

text \<open>
  Two more handler behaviours. In the first, handler \<open>k\<close> reacts to every value other
  than \<open>x\<close> by calling \<open>setConfigProperty(q, x)\<close> on instance \<open>i\<close> (no handler
  runs inside that nested call). In the second, every handler \<open>k\<close> calls
  \<open>setConfigProperty(q, k)\<close>, so that the value left under \<open>q\<close> tells which
  handler ran last.
\<close>

definition write_in_handler :: "nat \<Rightarrow> nat \<Rightarrow> string \<Rightarrow> val \<Rightarrow> handlers" where
  "write_in_handler i k q x =
     (\<lambda>k' d u. if k' = k \<and> snd d \<noteq> x then snd (setConfigProperty pure_handlers i q x u)
               else Inr u)"

definition stamp_handlers :: "nat \<Rightarrow> string \<Rightarrow> handlers" where
  "stamp_handlers i q = (\<lambda>k d u. snd (setConfigProperty pure_handlers i q (Num (int k)) u))"

section \<open>Evaluation on concrete worlds\<close>

lemmas eval_defs =
  default_world_def pure_handlers_def Let_def

lemmas store_defs =
  module_init_def realm_def createConfig_def alloc_def setConfigProperty_def
  getConfigProperty_def getParentObject_def getPropertyName_def path_match_def separator_def
  get_or_create_def notify_def inherited_def proto_get_def object_prototype_def
  number_prototype_keys_def boolean_prototype_keys_def method_error_def eval_defs

lemmas observer_defs =
  observeConfig_def unobserveConfig_def getObserverList_def getObserverIndex_def
  setObserverIndex_def list_push_def list_splice_def observer_key_def splice1_def
  call_handler_def handlers_of_def index_table_def recorded_index_def
  unobserve_in_handler_def store_defs

lemmas path_defs = intermediates_def root_of_def


lemmas write_defs = write_in_handler_def path_kept_def path_defs observer_defs

lemmas stamp_defs = stamp_handlers_def observer_defs

section \<open>The traversal loop\<close>

lemma split_sep_nonempty: "split_sep c s \<noteq> []"
  by (induction s) (auto split: list.splits)

lemma split_sep_length: "c \<in> set s \<Longrightarrow> 2 \<le> length (split_sep c s)"
proof (induction s)
  case Nil
  then show ?case by simp
next
  case (Cons x xs)
  show ?case
  proof (cases "x = c")
    case True
    have "1 \<le> length (split_sep c xs)"
      using split_sep_nonempty [of c xs] by (cases "split_sep c xs") auto
    with True show ?thesis by simp
  next
    case False
    with Cons have "2 \<le> length (split_sep c xs)" by simp
    with False show ?thesis by (cases "split_sep c xs") auto
  qed
qed

lemma every_descend:
  "idx < li \<Longrightarrow> li - idx \<le> length names \<Longrightarrow>
   every li idx names obj h = descend (take (li - idx) names) obj h"
proof (induction names arbitrary: idx obj h)
  case Nil
  then show ?case by simp
next
  case (Cons n ns)
  show ?case
  proof (cases "idx + 1 < li")
    case True
    then have eq: "li - idx = Suc (li - (idx + 1))" by simp
    have le: "li - (idx + 1) \<le> length ns" using Cons.prems by simp
    show ?thesis
      using True Cons.IH [OF True le]
      by (simp add: eq split: sum.splits)
  next
    case False
    with Cons.prems have "li - idx = Suc 0" by simp
    with False show ?thesis by (simp split: sum.splits)
  qed
qed

lemma every_butlast:
  "2 \<le> length segs \<Longrightarrow> every (length segs - 1) 0 segs obj h = descend (butlast segs) obj h"
  using every_descend [of 0 "length segs - 1" segs obj h]
  by (simp add: butlast_conv_take)

section \<open>Reads and writes on the heap\<close>

lemma map_of_update_other: "k' \<noteq> k \<Longrightarrow> map_of (AList.update k v al) k' = map_of al k'"
  by (simp add: update_conv')

lemma map_of_update_same: "map_of (AList.update k v al) k = Some v"
  by (simp add: update_conv')

lemma js_set_length: "js_set h t k v = Inr h' \<Longrightarrow> length h' = length h"
  by (cases t) (auto split: if_splits)

lemma proto_get_set_other:
  "js_set h t k v = Inr h' \<Longrightarrow> k' \<noteq> k \<Longrightarrow> proto_get h' k' = proto_get h k'"
  by (cases t) (auto simp: proto_get_def nth_list_update map_of_update_other split: if_splits)

lemma js_get_set_other:
  "js_set h t k v = Inr h' \<Longrightarrow> k' \<noteq> k \<Longrightarrow> js_get h' x k' = js_get h x k'"
proof -
  assume s: "js_set h t k v = Inr h'" and ne: "k' \<noteq> k"
  have len: "length h' = length h" using s by (rule js_set_length)
  have pg: "proto_get h' k' = proto_get h k'" using s ne by (rule proto_get_set_other)
  have own: "\<And>a. a < length h \<Longrightarrow> map_of (h' ! a) k' = map_of (h ! a) k'"
    using s ne by (cases t) (auto simp: nth_list_update map_of_update_other split: if_splits)
  have inh: "inherited h' k' = inherited h k'" by (simp add: inherited_def pg)
  show ?thesis
    by (cases x) (auto simp: len pg own inh split: option.splits)
qed

lemma js_get_set_same:
  "js_set h (Ref a) k v = Inr h' \<Longrightarrow> k \<noteq> ''__proto__'' \<Longrightarrow> js_get h' (Ref a) k = Inr v"
  by (auto simp: map_of_update_same split: if_splits)

lemma js_get_alloc: "js_get h x k = Inr v \<Longrightarrow> js_get (h @ [[]]) x k = Inr v"
  by (cases x) (auto simp: nth_append proto_get_def inherited_def split: if_splits option.splits)

lemma js_set_Inr_Ref: "js_set h t k v = Inr h' \<Longrightarrow> \<exists>a. t = Ref a \<and> a < length h"
  by (cases t) (auto split: if_splits)

lemma set_falsy_keeps_same_key:
  assumes g: "js_get h obj n = Inr u" and f: "\<not> truthy u"
    and s: "js_set h obj n w = Inr h'"
    and x: "js_get h x n = Inr v" and t: "truthy v"
  shows "js_get h' x n = Inr v"
proof -
  from s obtain b where obj: "obj = Ref b" and b: "b < length h"
    using js_set_Inr_Ref by blast
  have len: "length h' = length h" using s by (rule js_set_length)
  have other: "\<And>c. c \<noteq> b \<Longrightarrow> h' ! c = h ! c"
    using s obj by (auto split: if_splits)
  have pg: "b \<noteq> 0 \<Longrightarrow> proto_get h' n = proto_get h n"
    using other [of 0] len by (simp add: proto_get_def)
  have pg0: "b = 0 \<Longrightarrow> n \<noteq> ''__proto__'' \<Longrightarrow> \<not> truthy (proto_get h n)"
    using g f obj b by (auto simp: proto_get_def split: option.splits if_splits)
  have pgt: "n \<noteq> ''__proto__'' \<Longrightarrow> truthy (proto_get h n) \<Longrightarrow> proto_get h' n = proto_get h n"
    using pg pg0 by blast
  show ?thesis
  proof (cases x)
    case (Ref c)
    show ?thesis
    proof (cases "c = b")
      case True
      with Ref obj g x f t show ?thesis by simp
    next
      case False
      with Ref x t other [of c] len pgt show ?thesis
        by (auto simp: inherited_def split: if_splits option.splits)
    qed
  next
    case (Num m)
    with x t pgt show ?thesis by (auto split: if_splits)
  next
    case NaN
    with x t pgt show ?thesis by (auto split: if_splits)
  next
    case (Bool m)
    with x t pgt show ?thesis by (auto split: if_splits)
  qed (use x in auto)
qed

lemma set_falsy_keeps:
  assumes g: "js_get h obj n = Inr u" and f: "\<not> truthy u"
    and s: "js_set h obj n w = Inr h'"
    and x: "js_get h x k = Inr v" and t: "truthy v"
  shows "js_get h' x k = Inr v"
proof (cases "k = n")
  case True
  with assms show ?thesis using set_falsy_keeps_same_key by blast
next
  case False
  with s x show ?thesis using js_get_set_other by metis
qed

lemma get_or_create_keeps:
  assumes c: "get_or_create h obj n = Inr (o', h')"
    and x: "js_get h x k = Inr v" and t: "truthy v"
  shows "js_get h' x k = Inr v"
proof -
  from c obtain u where g: "js_get h obj n = Inr u"
    by (auto simp: get_or_create_def split: sum.splits)
  show ?thesis
  proof (cases "truthy u")
    case True
    with c g x show ?thesis by (simp add: get_or_create_def)
  next
    case False
    with c g have s: "js_set (h @ [[]]) obj n (Ref (length h)) = Inr h'"
      by (auto simp: get_or_create_def alloc_def split: sum.splits)
    from g have g1: "js_get (h @ [[]]) obj n = Inr u" by (rule js_get_alloc)
    from x have x1: "js_get (h @ [[]]) x k = Inr v" by (rule js_get_alloc)
    from g1 False s x1 t show ?thesis by (rule set_falsy_keeps)
  qed
qed

lemma get_or_create_result:
  assumes c: "get_or_create h obj n = Inr (o', h')"
  shows "js_get h' obj n = Inr o' \<and> truthy o'"
proof -
  from c obtain u where g: "js_get h obj n = Inr u"
    by (auto simp: get_or_create_def split: sum.splits)
  show ?thesis
  proof (cases "truthy u")
    case True
    with c g show ?thesis by (simp add: get_or_create_def)
  next
    case False
    with c g have s: "js_set (h @ [[]]) obj n (Ref (length h)) = Inr h'"
      and o': "o' = Ref (length h)"
      by (auto simp: get_or_create_def alloc_def split: sum.splits)
    from s obtain b where obj: "obj = Ref b" using js_set_Inr_Ref by blast
    from s obj o' show ?thesis
      by (auto simp: map_of_update_same split: if_splits)
  qed
qed

lemma descend_keeps:
  "descend ns obj h = Inr (p, h') \<Longrightarrow> js_get h x k = Inr v \<Longrightarrow> truthy v \<Longrightarrow>
   js_get h' x k = Inr v"
proof (induction ns arbitrary: obj h)
  case Nil
  then show ?case by simp
next
  case (Cons n ns)
  from Cons.prems(1) obtain o1 h1 where c: "get_or_create h obj n = Inr (o1, h1)"
    and d: "descend ns o1 h1 = Inr (p, h')"
    by (auto split: sum.splits)
  have "js_get h1 x k = Inr v" using c Cons.prems(2,3) by (rule get_or_create_keeps)
  with d show ?case using Cons.prems(3) by (rule Cons.IH)
qed

lemma resolve_descend: "resolve ns obj h = Some p \<Longrightarrow> descend ns obj h = Inr (p, h)"
  by (induction ns arbitrary: obj)
     (auto simp: get_or_create_def split: sum.splits if_splits)

lemma descend_resolve: "descend ns obj h = Inr (p, h') \<Longrightarrow> resolve ns obj h' = Some p"
proof (induction ns arbitrary: obj h)
  case Nil
  then show ?case by simp
next
  case (Cons n ns)
  from Cons.prems obtain o1 h1 where c: "get_or_create h obj n = Inr (o1, h1)"
    and d: "descend ns o1 h1 = Inr (p, h')"
    by (auto split: sum.splits)
  from c have r: "js_get h1 obj n = Inr o1" and t: "truthy o1"
    using get_or_create_result by blast+
  from d r t have "js_get h' obj n = Inr o1" by (rule descend_keeps)
  moreover from d have "resolve ns o1 h' = Some p" by (rule Cons.IH)
  ultimately show ?case using t by simp
qed

section \<open>The operations in terms of the traversal\<close>

lemma split_sep_no_sep: "c \<notin> set s \<Longrightarrow> split_sep c s = [s]"
  by (induction s) auto

lemma getPropertyName_last: "getPropertyName p = last (split_sep separator p)"
proof (cases "path_match p")
  case True
  then show ?thesis
    using split_sep_nonempty [of separator p]
    by (simp add: getPropertyName_def last_conv_nth Let_def)
next
  case False
  then show ?thesis
    by (simp add: getPropertyName_def path_match_def split_sep_no_sep)
qed

lemma getParentObject_descend:
  "getParentObject i p w =
     (case descend (butlast (split_sep separator p)) (Ref (data (stores w ! i))) (heap w) of
        Inl e \<Rightarrow> Inl e
      | Inr (obj', h') \<Rightarrow> Inr (obj', w\<lparr>heap := h'\<rparr>))"
proof (cases "path_match p")
  case True
  then have "2 \<le> length (split_sep separator p)"
    by (simp add: path_match_def split_sep_length)
  then have "every (length (split_sep separator p) - Suc 0) 0 (split_sep separator p)
                (Ref (data (stores w ! i))) (heap w)
              = descend (butlast (split_sep separator p)) (Ref (data (stores w ! i))) (heap w)"
    using every_butlast [of "split_sep separator p"] by simp
  with True show ?thesis
    by (simp add: getParentObject_def Let_def)
next
  case False
  then show ?thesis
    by (simp add: getParentObject_def path_match_def split_sep_no_sep)
qed

lemma call_all_frame:
  assumes hs: "\<And>k d u u'. hs k d u = Inr u' \<Longrightarrow> P u u'"
    and refl: "\<And>u. P u u" and trans: "\<And>u1 u2 u3. P u1 u2 \<Longrightarrow> P u2 u3 \<Longrightarrow> P u1 u3"
  shows "call_all hs fs d w = (t, Inr w') \<Longrightarrow> P w w'"
proof (induction fs arbitrary: w t)
  case Nil
  then show ?case using refl by simp
next
  case (Cons f fs)
  from Cons.prems obtain w1 t1 where c: "call_handler hs f d w = Inr w1"
    and r: "call_all hs fs d w1 = (t1, Inr w')"
    by (auto split: sum.splits prod.splits)
  from c obtain k where "f = Fn k" and hk: "hs k d w = Inr w1"
    by (cases f) (auto simp: call_handler_def)
  have a: "P w w1" using hk by (rule hs)
  have b: "P w1 w'" using r by (rule Cons.IH)
  from a b show ?case by (rule trans)
qed

lemma notify_frame:
  assumes hs: "\<And>k d u u'. hs k d u = Inr u' \<Longrightarrow> P u u'"
    and refl: "\<And>u. P u u" and trans: "\<And>u1 u2 u3. P u1 u2 \<Longrightarrow> P u2 u3 \<Longrightarrow> P u1 u3"
    and n: "notify hs i p v w = (t, Inr w')"
  shows "P w w'"
proof (cases "map_of (observerList (stores w ! i)) p")
  case None
  with n have "w' = w" by (auto simp: notify_def Let_def split: if_splits)
  then show ?thesis using refl by simp
next
  case (Some l)
  with n have "call_all hs (rev l) (p, v) w = (t, Inr w')" by (simp add: notify_def)
  then show ?thesis
    using call_all_frame [where hs = hs and P = P and w = w and w' = w'] hs refl trans
    by blast
qed

lemma getConfigProperty_resolved:
  assumes i: "i < length (stores w)"
    and r: "resolve (butlast (split_sep separator p)) (Ref (data (stores w ! i))) (heap w) = Some parent"
  shows "getConfigProperty i p w =
           (case js_get (heap w) parent (getPropertyName p) of
              Inl e \<Rightarrow> Inl e
            | Inr v \<Rightarrow> Inr (v, w))"
proof -
  from r have "descend (butlast (split_sep separator p)) (Ref (data (stores w ! i))) (heap w)
                 = Inr (parent, heap w)"
    by (rule resolve_descend)
  then have "getParentObject i p w = Inr (parent, w)"
    by (simp add: getParentObject_descend)
  with i show ?thesis by (simp add: getConfigProperty_def)
qed




section \<open>What the traversal changes\<close>

lemma js_get_set_other_obj:
  assumes s: "js_set h (Ref a) k v = Inr h'" and a0: "a \<noteq> 0" and x: "x \<noteq> Ref a"
  shows "js_get h' x k' = js_get h x k'"
proof -
  have len: "length h' = length h" using s by (rule js_set_length)
  have other: "\<And>c. c \<noteq> a \<Longrightarrow> h' ! c = h ! c"
    using s by (auto split: if_splits)
  have pg: "proto_get h' k' = proto_get h k'"
    using other [of 0] a0 len by (simp add: proto_get_def)
  have inh: "inherited h' k' = inherited h k'" by (simp add: inherited_def pg)
  show ?thesis
  proof (cases x)
    case (Ref c)
    with x have "c \<noteq> a" by simp
    then have "h' ! c = h ! c" by (rule other)
    with Ref show ?thesis by (simp add: len inh split: option.splits)
  qed (simp_all add: pg)
qed

lemma get_or_create_frame:
  assumes c: "get_or_create h obj n = Inr (o1, h1)"
    and x: "js_get h x k = Inr u"
    and ok: "k = n \<longrightarrow> x \<noteq> obj \<and> obj \<noteq> Ref 0"
  shows "js_get h1 x k = Inr u"
proof -
  from c obtain y where g: "js_get h obj n = Inr y"
    by (auto simp: get_or_create_def split: sum.splits)
  show ?thesis
  proof (cases "truthy y")
    case True
    with c g x show ?thesis by (simp add: get_or_create_def)
  next
    case False
    with c g have s: "js_set (h @ [[]]) obj n (Ref (length h)) = Inr h1"
      by (auto simp: get_or_create_def alloc_def split: sum.splits)
    from x have x1: "js_get (h @ [[]]) x k = Inr u" by (rule js_get_alloc)
    show ?thesis
    proof (cases "k = n")
      case False
      with s have "js_get h1 x k = js_get (h @ [[]]) x k" by (rule js_get_set_other)
      with x1 show ?thesis by simp
    next
      case True
      with ok have xo: "x \<noteq> obj" and o0: "obj \<noteq> Ref 0" by simp_all
      from s obtain a where obj: "obj = Ref a" using js_set_Inr_Ref by blast
      from o0 obj have a0: "a \<noteq> 0" by simp
      from xo obj have xa: "x \<noteq> Ref a" by simp
      from s obj have s': "js_set (h @ [[]]) (Ref a) n (Ref (length h)) = Inr h1" by simp
      have "js_get h1 x k = js_get (h @ [[]]) x k"
        using s' a0 xa by (rule js_get_set_other_obj)
      with x1 show ?thesis by simp
    qed
  qed
qed






lemma resolve_append:
  "resolve (xs @ ys) obj h =
     (case resolve xs obj h of None \<Rightarrow> None | Some o1 \<Rightarrow> resolve ys o1 h)"
  by (induction xs arbitrary: obj) (auto split: sum.splits)

lemma resolve_path_kept:
  assumes "resolve ns root h = Some parent" and "path_kept ns root h h'"
  shows "resolve ns root h' = Some parent"
proof -
  have "\<And>j. j \<le> length ns \<Longrightarrow> resolve (take j ns) root h' = resolve (take j ns) root h"
  proof -
    fix j show "j \<le> length ns \<Longrightarrow> resolve (take j ns) root h' = resolve (take j ns) root h"
    proof (induction j)
      case 0
      show ?case by simp
    next
      case (Suc j)
      then have j: "j < length ns" and IH: "resolve (take j ns) root h' = resolve (take j ns) root h"
        by simp_all
      have tk: "take (Suc j) ns = take j ns @ [ns ! j]" using j by (rule take_Suc_conv_app_nth)
      show ?case
      proof (cases "resolve (take j ns) root h")
        case None
        with IH show ?thesis by (simp add: tk resolve_append)
      next
        case (Some obj)
        with assms(2) j have "js_get h' obj (ns ! j) = js_get h obj (ns ! j)"
          by (simp add: path_kept_def)
        with Some IH show ?thesis
          by (simp add: tk resolve_append del: js_get.simps split: sum.splits)
      qed
    qed
  qed
  from this [of "length ns"] assms(1) show ?thesis by simp
qed








section \<open>Observer lists and index tables\<close>


lemma getParentObject_stores:
  "getParentObject i p w = Inr (parent, w1) \<Longrightarrow> stores w1 = stores w"
  by (auto simp: getParentObject_descend split: sum.splits)


lemma getObserverList_some:
  "handlers_of i p w = Some l \<Longrightarrow> getObserverList i p w = (Arr p, w)"
  by (simp add: getObserverList_def handlers_of_def)

lemma getObserverList_heap:
  "getObserverList i p w = (r, w1) \<Longrightarrow>
   heap w1 = heap w \<and> length (stores w1) = length (stores w)
   \<and> ident (stores w1 ! i) = ident (stores w ! i)
   \<and> data (stores w1 ! i) = data (stores w ! i)"
  by (cases "i < length (stores w)")
     (auto simp: getObserverList_def Let_def list_update_beyond split: option.splits if_splits)

lemma getObserverIndex_cong:
  "heap w1 = heap w \<Longrightarrow> ident (stores w1 ! i) = ident (stores w ! i) \<Longrightarrow>
   getObserverIndex i ob p w1 = getObserverIndex i ob p w"
  by (simp add: getObserverIndex_def observer_key_def split: sum.splits)

lemma setObserverIndex_stores:
  "setObserverIndex i ob p x w = Inr w1 \<Longrightarrow> stores w1 = stores w"
  by (auto simp: setObserverIndex_def split: sum.splits prod.splits)

lemma getObserverList_handlers:
  assumes i: "i < length (stores w)" and g: "getObserverList i p w = (Arr k, w1)"
  shows "k = p \<and> (\<exists>l. handlers_of i p w1 = Some l
            \<and> (handlers_of i p w = None \<longrightarrow> l = [])
            \<and> (\<forall>l0. handlers_of i p w = Some l0 \<longrightarrow> l = l0))"
  using i g
  by (auto simp: getObserverList_def handlers_of_def Let_def update_conv'
           split: option.splits if_splits)

lemma list_push_handlers:
  assumes i: "i < length (stores w)" and p: "list_push i (Arr k) f w = Inr (len, w1)"
  shows "\<exists>l. handlers_of i k w = Some l \<and> handlers_of i k w1 = Some (l @ [f])
            \<and> len = length l + 1 \<and> heap w1 = heap w \<and> length (stores w1) = length (stores w)
            \<and> ident (stores w1 ! i) = ident (stores w ! i)"
  using i p
  by (auto simp: list_push_def handlers_of_def Let_def update_conv' split: option.splits)

lemma list_push_NonArr: "list_push i (NonArr u) f w \<noteq> Inr r"
  by (simp add: list_push_def)

lemma observeConfig_heap_ident:
  assumes o: "observeConfig i ob p f w = Inr w1"
  shows "length (stores w1) = length (stores w) \<and> ident (stores w1 ! i) = ident (stores w ! i)"
proof -
  from o have i: "i < length (stores w)"
    by (auto simp: observeConfig_def split: if_splits)
  obtain r wa where g: "getObserverList i p w = (r, wa)" by (cases "getObserverList i p w")
  from g have a: "length (stores wa) = length (stores w)"
    "ident (stores wa ! i) = ident (stores w ! i)"
    using getObserverList_heap by blast+
  from i a have ia: "i < length (stores wa)" by simp
  from o i g obtain x where x: "getObserverIndex i ob p wa = Inr x"
    by (cases "getObserverIndex i ob p wa") (simp_all add: observeConfig_def)
  from o i g x obtain b where b: "js_isNaN x = Inr b"
    by (cases "js_isNaN x") (simp_all add: observeConfig_def)
  show ?thesis
  proof (cases b)
    case False
    with o i g x b have "w1 = wa" by (simp add: observeConfig_def)
    with a show ?thesis by simp
  next
    case True
    with o i g x b obtain len wb where pu: "list_push i r f wa = Inr (len, wb)"
      and si: "setObserverIndex i ob p (Num (int len - 1)) wb = Inr w1"
      by (cases "list_push i r f wa") (auto simp: observeConfig_def)
    from pu obtain k where r: "r = Arr k" using list_push_NonArr by (cases r) auto
    from list_push_handlers [OF ia pu [unfolded r]]
    have "length (stores wb) = length (stores wa)" "ident (stores wb ! i) = ident (stores wa ! i)"
      by auto
    moreover from si have "stores w1 = stores wb" by (rule setObserverIndex_stores)
    ultimately show ?thesis using a by simp
  qed
qed

lemma observe_new_steps:
  assumes o: "observeConfig i ob p f w = Inr w1"
    and x: "getObserverIndex i ob p w = Inr x"
    and n: "js_isNaN x = Inr True"
  shows "\<exists>r wa len wb. getObserverList i p w = (r, wa) \<and> list_push i r f wa = Inr (len, wb)
            \<and> setObserverIndex i ob p (Num (int len - 1)) wb = Inr w1"
proof -
  from o have i: "i < length (stores w)"
    by (auto simp: observeConfig_def split: if_splits)
  obtain r wa where g: "getObserverList i p w = (r, wa)" by (cases "getObserverList i p w")
  from g have hw: "heap wa = heap w"
    and iw: "ident (stores wa ! i) = ident (stores w ! i)"
    using getObserverList_heap by blast+
  have xa: "getObserverIndex i ob p wa = Inr x"
    using x getObserverIndex_cong [OF hw iw] by simp
  have e: "observeConfig i ob p f w =
      (case list_push i r f wa of
         Inl e \<Rightarrow> Inl e
       | Inr (len, w2) \<Rightarrow> setObserverIndex i ob p (Num (int len - 1)) w2)"
    unfolding observeConfig_def using i by (simp add: g xa n)
  from o [unfolded e] obtain len wb where "list_push i r f wa = Inr (len, wb)"
    and "setObserverIndex i ob p (Num (int len - 1)) wb = Inr w1"
    by (cases "list_push i r f wa") auto
  with g show ?thesis by blast
qed

lemma observe_new_appends:
  assumes o: "observeConfig i ob p f w = Inr w1"
    and x: "getObserverIndex i ob p w = Inr x"
    and n: "js_isNaN x = Inr True"
  shows "\<exists>l. handlers_of i p w1 = Some (l @ [f])
            \<and> (handlers_of i p w = None \<longrightarrow> l = [])
            \<and> (\<forall>l0. handlers_of i p w = Some l0 \<longrightarrow> l = l0)"
proof -
  from o have i: "i < length (stores w)"
    by (auto simp: observeConfig_def split: if_splits)
  from observe_new_steps [OF o x n] obtain r wa len wb where
    g: "getObserverList i p w = (r, wa)" and pu: "list_push i r f wa = Inr (len, wb)"
    and si: "setObserverIndex i ob p (Num (int len - 1)) wb = Inr w1"
    by blast
  from g have lw: "length (stores wa) = length (stores w)"
    using getObserverList_heap by blast
  from pu obtain k where r: "r = Arr k"
    using list_push_NonArr by (cases r) auto
  from i lw have ia: "i < length (stores wa)" by simp
  have ga: "getObserverList i p w = (Arr k, wa)" using g r by simp
  have pa: "list_push i (Arr k) f wa = Inr (len, wb)" using pu r by simp
  from getObserverList_handlers [OF i ga] have k: "k = p"
    and ex: "\<exists>l. handlers_of i p wa = Some l
            \<and> (handlers_of i p w = None \<longrightarrow> l = [])
            \<and> (\<forall>l0. handlers_of i p w = Some l0 \<longrightarrow> l = l0)"
    by (rule conjunct1, rule conjunct2)
  from ex obtain l where la: "handlers_of i p wa = Some l"
    and l0: "handlers_of i p w = None \<longrightarrow> l = []"
    and l1: "\<forall>l0. handlers_of i p w = Some l0 \<longrightarrow> l = l0"
    by (elim exE conjE)
  from list_push_handlers [OF ia pa] obtain l' where
    "handlers_of i k wa = Some l'" and "handlers_of i k wb = Some (l' @ [f])"
    by blast
  with la k have b: "handlers_of i p wb = Some (l @ [f])" by simp
  from si have "stores w1 = stores wb" by (rule setObserverIndex_stores)
  with b have c: "handlers_of i p w1 = Some (l @ [f])" by (simp add: handlers_of_def)
  show ?thesis by (intro exI [of _ l] conjI) (rule c l0 l1)+
qed

lemma splice1_nat: "splice1 (int n) l = take n l @ drop (Suc n) l"
  by (cases "n \<le> length l") (simp_all add: splice1_def Let_def min_def)

lemma index_table_get:
  "index_table i ob w = Some t \<Longrightarrow>
   js_get (heap w) ob (observer_key (stores w ! i)) = Inr (Ref t) \<and> t < length (heap w)"
  by (auto simp: index_table_def split: sum.splits val.splits if_splits)

lemma recorded_index_get:
  assumes t: "index_table i ob w = Some t" and r: "recorded_index i ob p w = Some x"
  shows "getObserverIndex i ob p w = Inr x"
proof -
  from t have g: "js_get (heap w) ob (observer_key (stores w ! i)) = Inr (Ref t)"
    and lt: "t < length (heap w)"
    using index_table_get by blast+
  from r t have "map_of (heap w ! t) p = Some x" by (simp add: recorded_index_def)
  with g lt show ?thesis by (simp add: getObserverIndex_def)
qed

lemma unobserve_recorded:
  assumes i: "i < length (stores w)"
    and l: "handlers_of i p w = Some l"
    and t: "index_table i ob w = Some t"
    and r: "recorded_index i ob p w = Some (Num (int n))"
  shows "unobserveConfig i ob p w =
           Inr (w\<lparr>stores := (stores w)[i := (stores w ! i)\<lparr>observerList :=
                     AList.update p (splice1 (int n) l) (observerList (stores w ! i))\<rparr>],
                  heap := (heap w)[t := AList.update p NaN (heap w ! t)]\<rparr>)"
proof -
  let ?w2 = "w\<lparr>stores := (stores w)[i := (stores w ! i)\<lparr>observerList :=
                     AList.update p (splice1 (int n) l) (observerList (stores w ! i))\<rparr>]\<rparr>"
  have g: "getObserverList i p w = (Arr p, w)" using l by (rule getObserverList_some)
  have x: "getObserverIndex i ob p w = Inr (Num (int n))" using t r by (rule recorded_index_get)
  have sp: "list_splice i (Arr p) (Num (int n)) w = Inr ?w2"
    using l by (simp add: list_splice_def handlers_of_def Let_def)
  from t have gk: "js_get (heap w) ob (observer_key (stores w ! i)) = Inr (Ref t)"
    and lt: "t < length (heap w)"
    using index_table_get by blast+
  from r t have own: "map_of (heap w ! t) p = Some (Num (int n))"
    by (simp add: recorded_index_def)
  have key: "\<And>X. observer_key ((stores w)[i := (stores w ! i)\<lparr>observerList := X\<rparr>] ! i)
                = observer_key (stores w ! i)"
    using i by (simp add: observer_key_def)
  have goc: "get_or_create (heap w) ob (observer_key (stores w ! i)) = Inr (Ref t, heap w)"
    using gk by (simp add: get_or_create_def del: js_get.simps)
  have st: "js_set (heap w) (Ref t) p NaN = Inr ((heap w)[t := AList.update p NaN (heap w ! t)])"
    using lt own by simp
  have si: "setObserverIndex i ob p NaN ?w2 = Inr (?w2\<lparr>heap := (heap w)[t := AList.update p NaN (heap w ! t)]\<rparr>)"
    unfolding setObserverIndex_def by (simp add: key goc st del: js_get.simps js_set.simps)
  show ?thesis
    unfolding unobserveConfig_def using i by (simp add: g x sp si)
qed

lemma removed_before_nth:
  assumes "n1 < n2" and "n2 < length l"
  shows "(take n1 l @ drop (Suc n1) l) ! (n2 - 1) = l ! n2"
  using assms by (auto simp: nth_append min_def)

lemma removed_before_next:
  assumes "n1 < n2" and "Suc n2 < length l"
  shows "(take n1 l @ drop (Suc n1) l) ! n2 = l ! Suc n2"
  using assms by (auto simp: nth_append min_def)

lemma call_handler_Inr:
  "call_handler hs f d u = Inr u' \<Longrightarrow> \<exists>k. f = Fn k \<and> hs k d u = Inr u'"
  by (cases f) (auto simp: call_handler_def)

lemma call_all_two:
  assumes "call_all hs (f2 # f1 # fs) d u0 = (t, Inr w')"
  shows "\<exists>k1 k2 u1 u2 earlier. f1 = Fn k1 \<and> f2 = Fn k2
           \<and> hs k2 d u0 = Inr u1 \<and> hs k1 d u1 = Inr u2
           \<and> call_all hs fs d u2 = (earlier, Inr w')
           \<and> t = (f2, d) # (f1, d) # earlier"
proof -
  from assms obtain u1 t1 where c2: "call_handler hs f2 d u0 = Inr u1"
    and r1: "call_all hs (f1 # fs) d u1 = (t1, Inr w')" and t: "t = (f2, d) # t1"
    by (auto split: sum.splits prod.splits)
  from r1 obtain u2 t2 where c1: "call_handler hs f1 d u1 = Inr u2"
    and r2: "call_all hs fs d u2 = (t2, Inr w')" and t1: "t1 = (f1, d) # t2"
    by (auto split: sum.splits prod.splits)
  from c2 obtain k2 where f2: "f2 = Fn k2" and h2: "hs k2 d u0 = Inr u1"
    using call_handler_Inr by blast
  from c1 obtain k1 where f1: "f1 = Fn k1" and h1: "hs k1 d u1 = Inr u2"
    using call_handler_Inr by blast
  have tt: "t = (f2, d) # (f1, d) # t2" using t t1 by simp
  show ?thesis
    by (intro exI [of _ k1] exI [of _ k2] exI [of _ u1] exI [of _ u2] exI [of _ t2] conjI)
       (rule f1 f2 h2 h1 r2 tt)+
qed

lemma setObserverIndex_reads:
  assumes s: "setObserverIndex i ob q x u = Inr u'"
    and kq: "k \<noteq> q" and kk: "k \<noteq> observer_key (stores u ! i)"
    and g: "js_get (heap u) z k = Inr y"
  shows "js_get (heap u') z k = Inr y"
proof -
  from s obtain bc h1 h2 where c: "get_or_create (heap u) ob (observer_key (stores u ! i)) = Inr (bc, h1)"
    and t: "js_set h1 bc q x = Inr h2" and u': "u' = u\<lparr>heap := h2\<rparr>"
    by (auto simp: setObserverIndex_def split: sum.splits prod.splits)
  have "k = observer_key (stores u ! i) \<longrightarrow> z \<noteq> ob \<and> ob \<noteq> Ref 0" using kk by simp
  with c g have "js_get h1 z k = Inr y" by (rule get_or_create_frame)
  moreover from t kq have "js_get h2 z k = js_get h1 z k" by (rule js_get_set_other)
  ultimately show ?thesis using u' by simp
qed

lemma list_splice_frame:
  assumes "list_splice i r idx w1 = Inr w2" and "i < length (stores w1)"
  shows "heap w2 = heap w1 \<and> length (stores w2) = length (stores w1)
         \<and> data (stores w2 ! i) = data (stores w1 ! i)
         \<and> ident (stores w2 ! i) = ident (stores w1 ! i)"
  using assms
  by (cases r) (auto simp: list_splice_def Let_def split: option.splits prod.splits)

lemma unobserveConfig_frame:
  assumes un: "unobserveConfig i ob q u = Inr u'"
  shows "length (stores u') = length (stores u) \<and> data (stores u' ! i) = data (stores u ! i)
         \<and> (\<forall>k z y. k \<noteq> q \<and> k \<noteq> observer_key (stores u ! i) \<and> js_get (heap u) z k = Inr y
               \<longrightarrow> js_get (heap u') z k = Inr y)"
proof -
  from un have i: "i < length (stores u)"
    by (auto simp: unobserveConfig_def split: if_splits)
  obtain r wa where gl: "getObserverList i q u = (r, wa)" by (cases "getObserverList i q u")
  from gl have ha: "heap wa = heap u" and la: "length (stores wa) = length (stores u)"
    and ia: "ident (stores wa ! i) = ident (stores u ! i)"
    and da: "data (stores wa ! i) = data (stores u ! i)"
    using getObserverList_heap by blast+
  from i la have iwa: "i < length (stores wa)" by simp
  from un i gl obtain x where x: "getObserverIndex i ob q wa = Inr x"
    by (cases "getObserverIndex i ob q wa") (simp_all add: unobserveConfig_def)
  from un i gl x obtain b where b: "js_isNaN x = Inr b"
    by (cases "js_isNaN x") (simp_all add: unobserveConfig_def)
  show ?thesis
  proof (cases b)
    case True
    with un i gl x b have "u' = wa" by (simp add: unobserveConfig_def)
    with ha la da show ?thesis by simp
  next
    case False
    with un i gl x b obtain wb where sp: "list_splice i r x wa = Inr wb"
      and si: "setObserverIndex i ob q NaN wb = Inr u'"
      by (cases "list_splice i r x wa") (auto simp: unobserveConfig_def)
    from list_splice_frame [OF sp iwa]
    have hb: "heap wb = heap wa" and lb: "length (stores wb) = length (stores wa)"
      and db: "data (stores wb ! i) = data (stores wa ! i)"
      and ib: "ident (stores wb ! i) = ident (stores wa ! i)"
      by simp_all
    from si have st: "stores u' = stores wb" by (rule setObserverIndex_stores)
    have key: "observer_key (stores wb ! i) = observer_key (stores u ! i)"
      using ib ia by (simp add: observer_key_def)
    have reads: "\<forall>k z y. k \<noteq> q \<and> k \<noteq> observer_key (stores u ! i) \<and> js_get (heap u) z k = Inr y
               \<longrightarrow> js_get (heap u') z k = Inr y"
    proof (intro allI impI, elim conjE)
      fix k z y assume kq: "k \<noteq> q" and kk: "k \<noteq> observer_key (stores u ! i)"
        and g: "js_get (heap u) z k = Inr y"
      from kk key have kk': "k \<noteq> observer_key (stores wb ! i)" by simp
      from g hb ha have g': "js_get (heap wb) z k = Inr y" by simp
      from si kq kk' g' show "js_get (heap u') z k = Inr y" by (rule setObserverIndex_reads)
    qed
    from st lb la db da reads show ?thesis by simp
  qed
qed

lemma resolve_mono:
  assumes "\<forall>x y. \<forall>k \<in> set ns. js_get h x k = Inr y \<longrightarrow> js_get h' x k = Inr y"
    and "resolve ns obj h = Some q"
  shows "resolve ns obj h' = Some q"
  using assms
proof (induction ns arbitrary: obj)
  case Nil
  then show ?case by simp
next
  case (Cons n ns)
  from Cons.prems(2) obtain y where g: "js_get h obj n = Inr y" and t: "truthy y"
    and r: "resolve ns y h = Some q"
    by (auto split: sum.splits if_splits)
  from Cons.prems(1) g have g': "js_get h' obj n = Inr y" by simp
  from Cons.prems(1) have "\<forall>x y. \<forall>k \<in> set ns. js_get h x k = Inr y \<longrightarrow> js_get h' x k = Inr y"
    by simp
  from this r have "resolve ns y h' = Some q" by (rule Cons.IH)
  with g' t show ?case by simp
qed

lemma read_stable:
  assumes g: "getConfigProperty i p u = Inr (v, u)"
    and l: "length (stores u') = length (stores u)"
    and d: "data (stores u' ! i) = data (stores u ! i)"
    and reads: "\<forall>x y. \<forall>k \<in> set (split_sep separator p).
                  js_get (heap u) x k = Inr y \<longrightarrow> js_get (heap u') x k = Inr y"
  shows "getConfigProperty i p u' = Inr (v, u')"
proof -
  let ?segs = "split_sep separator p"
  let ?ns = "butlast ?segs"
  let ?root = "Ref (data (stores u ! i))"
  from g have i: "i < length (stores u)"
    by (auto simp: getConfigProperty_def split: if_splits)
  from g i obtain parent h1 where dd: "descend ?ns ?root (heap u) = Inr (parent, h1)"
    and eq: "u\<lparr>heap := h1\<rparr> = u" and v: "js_get h1 parent (getPropertyName p) = Inr v"
    by (auto simp: getConfigProperty_def getParentObject_descend Let_def split: sum.splits)
  from eq have "heap (u\<lparr>heap := h1\<rparr>) = heap u" by simp
  then have h1: "h1 = heap u" by simp
  from dd have r: "resolve ?ns ?root (heap u) = Some parent"
    unfolding h1 by (rule descend_resolve)
  have sub: "set ?ns \<subseteq> set ?segs" by (auto dest: in_set_butlastD)
  from reads sub have "\<forall>x y. \<forall>k \<in> set ?ns. js_get (heap u) x k = Inr y \<longrightarrow> js_get (heap u') x k = Inr y"
    by blast
  from this r have r': "resolve ?ns ?root (heap u') = Some parent" by (rule resolve_mono)
  have "getPropertyName p \<in> set ?segs"
    using split_sep_nonempty [of separator p] by (simp add: getPropertyName_last)
  with reads v h1 have v': "js_get (heap u') parent (getPropertyName p) = Inr v" by simp
  from i l have i': "i < length (stores u')" by simp
  from r' d have "resolve ?ns (Ref (data (stores u' ! i))) (heap u') = Some parent" by simp
  from getConfigProperty_resolved [OF i' this] v' show ?thesis by simp
qed

lemma unobserve_keeps_read:
  assumes un: "unobserveConfig i ob q u = Inr u'"
    and g: "getConfigProperty i p u = Inr (v, u)"
    and keys: "\<forall>k \<in> set (split_sep separator p). k \<noteq> q \<and> take 2 k \<noteq> ''bc''"
  shows "getConfigProperty i p u' = Inr (v, u')"
proof -
  note F = unobserveConfig_frame [OF un]
  have l: "length (stores u') = length (stores u)" using F by (rule conjunct1)
  have d: "data (stores u' ! i) = data (stores u ! i)" using F by (rule conjunct2 [THEN conjunct1])
  have rd: "\<forall>k z y. k \<noteq> q \<and> k \<noteq> observer_key (stores u ! i) \<and> js_get (heap u) z k = Inr y
               \<longrightarrow> js_get (heap u') z k = Inr y"
    using F by (rule conjunct2 [THEN conjunct2])
  have reads: "\<forall>x y. \<forall>k \<in> set (split_sep separator p).
                  js_get (heap u) x k = Inr y \<longrightarrow> js_get (heap u') x k = Inr y"
  proof (intro allI ballI impI)
    fix x y k assume k: "k \<in> set (split_sep separator p)" and a: "js_get (heap u) x k = Inr y"
    from keys k have kq: "k \<noteq> q" and kb: "take 2 k \<noteq> ''bc''" by auto
    have kk: "k \<noteq> observer_key (stores u ! i)"
    proof
      assume "k = observer_key (stores u ! i)"
      then have "take 2 k = ''bc''" by (simp add: observer_key_def)
      with kb show False by simp
    qed
    from rd [rule_format, of k x y] kq kk a show "js_get (heap u') x k = Inr y" by simp
  qed
  from g l d reads show ?thesis by (rule read_stable)
qed

section \<open>Reading\<close>







section \<open>Writing, then reading\<close>

text \<open>
  C2 (as amended). On a store of plain objects, let \<open>setConfigProperty(p, v)\<close> return
  normally, and let the last segment of \<open>p\<close> not be \<open>__proto__\<close>. Let the
  assignment of \<open>v\<close> keep the path: each intermediate segment of \<open>p\<close> reads after
  the assignment as it did before. And let every handler, when it starts in a world where
  \<open>getConfigProperty(p)\<close> returns \<open>v\<close> without changing anything and returns
  normally, end in such a world. Then \<open>getConfigProperty(p)\<close> returns exactly
  \<open>v\<close> and changes nothing. Handlers are free to do anything else, such as calling
  \<open>unobserveConfig\<close> on themselves.
\<close>

theorem set_then_get:
  assumes s: "setConfigProperty hs i p v w = (t, Inr w')"
    and np: "getPropertyName p \<noteq> ''__proto__''"
    and nc: "\<And>parent w1 h2. getParentObject i p w = Inr (parent, w1) \<Longrightarrow>
               js_set (heap w1) parent (getPropertyName p) v = Inr h2 \<Longrightarrow>
               path_kept (intermediates p) (root_of i w) (heap w1) h2"
    and hs: "\<And>k d u u'. hs k d u = Inr u' \<Longrightarrow> getConfigProperty i p u = Inr (v, u) \<Longrightarrow>
               getConfigProperty i p u' = Inr (v, u')"
  shows "getConfigProperty i p w' = Inr (v, w')"
proof -
  let ?ns = "butlast (split_sep separator p)"
  let ?root = "Ref (data (stores w ! i))"
  let ?P = "\<lambda>u u'. getConfigProperty i p u = Inr (v, u) \<longrightarrow> getConfigProperty i p u' = Inr (v, u')"
  from s have i: "i < length (stores w)"
    by (auto simp: setConfigProperty_def split: if_splits)
  from s i obtain parent w1 h2 where g: "getParentObject i p w = Inr (parent, w1)"
    and a: "js_set (heap w1) parent (getPropertyName p) v = Inr h2"
    and n: "notify hs i p v (w1\<lparr>heap := h2\<rparr>) = (t, Inr w')"
    by (auto simp: setConfigProperty_def Let_def split: sum.splits prod.splits)
  from g obtain h1 where d: "descend ?ns ?root (heap w) = Inr (parent, h1)"
    and w1: "w1 = w\<lparr>heap := h1\<rparr>"
    by (auto simp: getParentObject_descend split: sum.splits)
  from d have r1: "resolve ?ns ?root h1 = Some parent" by (rule descend_resolve)
  from nc [OF g a] have pk: "path_kept ?ns ?root h1 h2"
    using w1 by (simp add: intermediates_def root_of_def)
  from r1 pk have r2: "resolve ?ns ?root h2 = Some parent" by (rule resolve_path_kept)
  from a w1 have a1: "js_set h1 parent (getPropertyName p) v = Inr h2" by simp
  from a1 obtain b where b: "parent = Ref b" using js_set_Inr_Ref by blast
  from a1 b np have v: "js_get h2 parent (getPropertyName p) = Inr v"
    using js_get_set_same by blast
  let ?w2 = "w1\<lparr>heap := h2\<rparr>"
  have i2: "i < length (stores ?w2)" using i w1 by simp
  have r2': "resolve ?ns (Ref (data (stores ?w2 ! i))) (heap ?w2) = Some parent"
    using r2 w1 by simp
  from getConfigProperty_resolved [OF i2 r2'] v
  have R2: "getConfigProperty i p ?w2 = Inr (v, ?w2)" by simp
  have hs': "\<And>k d u u'. hs k d u = Inr u' \<Longrightarrow> ?P u u'" using hs by blast
  have "?P ?w2 w'"
    by (rule notify_frame [where hs = hs and P = ?P, OF hs' _ _ n]) simp_all
  with R2 show ?thesis by simp
qed

theorem set_then_get_witness:
  "setConfigProperty (unobserve_in_handler 0 1 (Ref 2) ''a.a'') 0 ''a.a'' (Str ''hi'')
       (default_world [[], [(''bcG'', Ref 3)], [(''a.a'', Num 0)]] [(''a.a'', [Fn 1])])
     = ([(Fn 1, ''a.a'', Str ''hi'')],
        Inr (default_world [[(''a'', Ref 4)], [(''bcG'', Ref 3)], [(''a.a'', NaN)],
                            [(''a'', Str ''hi'')]] [(''a.a'', [])]))
   \<and> getPropertyName ''a.a'' \<noteq> ''__proto__''
   \<and> getParentObject 0 ''a.a''
       (default_world [[], [(''bcG'', Ref 3)], [(''a.a'', Num 0)]] [(''a.a'', [Fn 1])])
     = Inr (Ref 4, default_world [[(''a'', Ref 4)], [(''bcG'', Ref 3)], [(''a.a'', Num 0)], []]
                     [(''a.a'', [Fn 1])])
   \<and> path_kept (intermediates ''a.a'')
         (root_of 0 (default_world [[], [(''bcG'', Ref 3)], [(''a.a'', Num 0)]] [(''a.a'', [Fn 1])]))
         (heap (default_world [[(''a'', Ref 4)], [(''bcG'', Ref 3)], [(''a.a'', Num 0)], []]
                     [(''a.a'', [Fn 1])]))
         (heap (default_world [[(''a'', Ref 4)], [(''bcG'', Ref 3)], [(''a.a'', Num 0)],
                               [(''a'', Str ''hi'')]] [(''a.a'', [Fn 1])]))
   \<and> getConfigProperty 0 ''a.a''
       (default_world [[(''a'', Ref 4)], [(''bcG'', Ref 3)], [(''a.a'', NaN)],
                       [(''a'', Str ''hi'')]] [(''a.a'', [])])
     = Inr (Str ''hi'',
            default_world [[(''a'', Ref 4)], [(''bcG'', Ref 3)], [(''a.a'', NaN)],
                           [(''a'', Str ''hi'')]] [(''a.a'', [])])"
proof -
  let ?H = "unobserve_in_handler 0 1 (Ref 2) ''a.a''"
  let ?w = "default_world [[], [(''bcG'', Ref 3)], [(''a.a'', Num 0)]] [(''a.a'', [Fn 1])]"
  let ?wp = "default_world [[(''a'', Ref 4)], [(''bcG'', Ref 3)], [(''a.a'', Num 0)], []]
                     [(''a.a'', [Fn 1])]"
  let ?wq = "default_world [[(''a'', Ref 4)], [(''bcG'', Ref 3)], [(''a.a'', Num 0)],
                               [(''a'', Str ''hi'')]] [(''a.a'', [Fn 1])]"
  let ?wr = "default_world [[(''a'', Ref 4)], [(''bcG'', Ref 3)], [(''a.a'', NaN)],
                       [(''a'', Str ''hi'')]] [(''a.a'', [])]"
  have s: "setConfigProperty ?H 0 ''a.a'' (Str ''hi'') ?w = ([(Fn 1, ''a.a'', Str ''hi'')], Inr ?wr)"
    by (simp add: write_defs)
  have np: "getPropertyName ''a.a'' \<noteq> ''__proto__''" by (simp add: write_defs)
  have gp: "getParentObject 0 ''a.a'' ?w = Inr (Ref 4, ?wp)" by (simp add: write_defs)
  have st: "js_set (heap ?wp) (Ref 4) (getPropertyName ''a.a'') (Str ''hi'') = Inr (heap ?wq)"
    by (simp add: write_defs)
  have pk: "path_kept (intermediates ''a.a'') (root_of 0 ?w) (heap ?wp) (heap ?wq)"
    by (simp add: write_defs)
  have c: "getConfigProperty 0 ''a.a'' ?wr = Inr (Str ''hi'', ?wr)"
  proof (rule set_then_get [OF s np])
    fix parent w1 h2
    assume a: "getParentObject 0 ''a.a'' ?w = Inr (parent, w1)"
      and b: "js_set (heap w1) parent (getPropertyName ''a.a'') (Str ''hi'') = Inr h2"
    from a gp have e: "parent = Ref 4" "w1 = ?wp" by simp_all
    from b st have "h2 = heap ?wq" unfolding e by simp
    with pk show "path_kept (intermediates ''a.a'') (root_of 0 ?w) (heap w1) h2"
      unfolding e by simp
  next
    fix k d u u'
    assume h: "?H k d u = Inr u'"
      and g: "getConfigProperty 0 ''a.a'' u = Inr (Str ''hi'', u)"
    show "getConfigProperty 0 ''a.a'' u' = Inr (Str ''hi'', u')"
    proof (cases "k = 1")
      case True
      with h have un: "unobserveConfig 0 (Ref 2) ''a.a'' u = Inr u'"
        by (simp add: unobserve_in_handler_def)
      have keys: "\<forall>k \<in> set (split_sep separator ''a.a''). k \<noteq> ''a.a'' \<and> take 2 k \<noteq> ''bc''"
        by (simp add: separator_def)
      from un g keys show ?thesis by (rule unobserve_keeps_read)
    next
      case False
      with h have "u' = u" by (simp add: unobserve_in_handler_def)
      with g show ?thesis by simp
    qed
  qed
  show ?thesis by (intro conjI) (rule s np gp pk c)+
qed

text \<open>
  The claim as stated fails in four ways. (1) With 5 stored under \<open>a\<close>,
  \<open>setConfigProperty('a.b', 7)\<close> throws. (2) After \<open>setConfigProperty('a.b', 1)\<close>,
  \<open>m = getConfigProperty('a')\<close> and \<open>setConfigProperty('a.b', m)\<close> the mapping
  \<open>a\<close> contains itself under \<open>b\<close>; then \<open>setConfigProperty('a.b.b', 5)\<close>
  returns normally and \<open>getConfigProperty('a.b.b')\<close> returns the absent marker.
  (3) \<open>setConfigProperty('a.__proto__', 1)\<close> returns normally, stores nothing, and
  \<open>getConfigProperty('a.__proto__')\<close> returns \<open>Object.prototype\<close>.
  (4) With a handler registered for \<open>p\<close> that answers every value other than 0 by
  \<open>setConfigProperty('p', 0)\<close>, the call \<open>setConfigProperty('p', 7)\<close> returns
  normally and \<open>getConfigProperty('p')\<close> returns 0.
\<close>

theorem set_then_get_counterexample:
  "setConfigProperty pure_handlers 0 ''a'' (Num 5) (default_world [[]] [])
     = ([], Inr (default_world [[(''a'', Num 5)]] []))
   \<and> setConfigProperty pure_handlers 0 ''a.b'' (Num 7) (default_world [[(''a'', Num 5)]] [])
     = ([], Inl TypeError)
   \<and> setConfigProperty pure_handlers 0 ''a.b'' (Num 1) (default_world [[]] [])
     = ([], Inr (default_world [[(''a'', Ref 2)], [(''b'', Num 1)]] []))
   \<and> getConfigProperty 0 ''a'' (default_world [[(''a'', Ref 2)], [(''b'', Num 1)]] [])
     = Inr (Ref 2, default_world [[(''a'', Ref 2)], [(''b'', Num 1)]] [])
   \<and> setConfigProperty pure_handlers 0 ''a.b'' (Ref 2) (default_world [[(''a'', Ref 2)], [(''b'', Num 1)]] [])
     = ([], Inr (default_world [[(''a'', Ref 2)], [(''b'', Ref 2)]] []))
   \<and> setConfigProperty pure_handlers 0 ''a.b.b'' (Num 5) (default_world [[(''a'', Ref 2)], [(''b'', Ref 2)]] [])
     = ([], Inr (default_world [[(''a'', Ref 2)], [(''b'', Num 5)]] []))
   \<and> getConfigProperty 0 ''a.b.b'' (default_world [[(''a'', Ref 2)], [(''b'', Num 5)]] [])
     = Inr (Undefined, default_world [[(''a'', Ref 2)], [(''b'', Num 5)]] [])
   \<and> setConfigProperty pure_handlers 0 ''a.__proto__'' (Num 1) (default_world [[(''a'', Ref 2)], []] [])
     = ([], Inr (default_world [[(''a'', Ref 2)], []] []))
   \<and> getConfigProperty 0 ''a.__proto__'' (default_world [[(''a'', Ref 2)], []] [])
     = Inr (Ref 0, default_world [[(''a'', Ref 2)], []] [])
   \<and> setConfigProperty (write_in_handler 0 1 ''p'' (Num 0)) 0 ''p'' (Num 7)
         (default_world [[]] [(''p'', [Fn 1])])
     = ([(Fn 1, ''p'', Num 7)], Inr (default_world [[(''p'', Num 0)]] [(''p'', [Fn 1])]))
   \<and> getConfigProperty 0 ''p'' (default_world [[(''p'', Num 0)]] [(''p'', [Fn 1])])
     = Inr (Num 0, default_world [[(''p'', Num 0)]] [(''p'', [Fn 1])])"
  by (simp add: write_defs)

section \<open>Notification\<close>



text \<open>
  C5. Let \<open>ob1\<close> and then \<open>ob2\<close> register the handlers \<open>f1\<close> and \<open>f2\<close>
  for the same path, neither having an index recorded before its call, and let a later
  write of \<open>v\<close> to that path return normally. Then \<open>f1\<close> and \<open>f2\<close> are
  functions and are the last two entries of the path's handler sequence. The handler of
  \<open>ob2\<close> runs first, in the world that the assignment of \<open>v\<close> leaves; the handler
  of \<open>ob1\<close> runs second, in the world that the handler of \<open>ob2\<close> leaves; the
  handlers registered earlier run after that, last registered first, and leave the world
  in which the write returns. The call log lists the calls in this order, each with the
  record of the path and \<open>v\<close>.
\<close>

theorem reverse_registration_order:
  assumes o1: "observeConfig i ob1 p f1 w = Inr w1"
    and x1: "getObserverIndex i ob1 p w = Inr x1" and n1: "js_isNaN x1 = Inr True"
    and o2: "observeConfig i ob2 p f2 w1 = Inr w2"
    and x2: "getObserverIndex i ob2 p w1 = Inr x2" and n2: "js_isNaN x2 = Inr True"
    and s: "setConfigProperty hs i p v w2 = (t, Inr w')"
  shows "\<exists>k1 k2 l parent wa h u1 u2 earlier.
           f1 = Fn k1 \<and> f2 = Fn k2
         \<and> handlers_of i p w2 = Some (l @ [f1, f2])
         \<and> getParentObject i p w2 = Inr (parent, wa)
         \<and> js_set (heap wa) parent (getPropertyName p) v = Inr h
         \<and> hs k2 (p, v) (wa\<lparr>heap := h\<rparr>) = Inr u1
         \<and> hs k1 (p, v) u1 = Inr u2
         \<and> call_all hs (rev l) (p, v) u2 = (earlier, Inr w')
         \<and> t = (f2, (p, v)) # (f1, (p, v)) # earlier"
proof -
  from observe_new_appends [OF o1 x1 n1] obtain l where
    l1: "handlers_of i p w1 = Some (l @ [f1])" by (elim exE conjE)
  from observe_new_appends [OF o2 x2 n2] obtain l' where
    l2': "handlers_of i p w2 = Some (l' @ [f2])"
    and e: "\<forall>l0. handlers_of i p w1 = Some l0 \<longrightarrow> l' = l0"
    by (elim exE conjE)
  from e l1 have "l' = l @ [f1]" by simp
  with l2' have l2: "handlers_of i p w2 = Some (l @ [f1, f2])" by simp
  from s have i: "i < length (stores w2)"
    by (auto simp: setConfigProperty_def split: if_splits)
  from s i obtain parent wa h where g: "getParentObject i p w2 = Inr (parent, wa)"
    and a: "js_set (heap wa) parent (getPropertyName p) v = Inr h"
    and n: "notify hs i p v (wa\<lparr>heap := h\<rparr>) = (t, Inr w')"
    by (auto simp: setConfigProperty_def Let_def split: sum.splits prod.splits)
  from g have "stores wa = stores w2" by (rule getParentObject_stores)
  with l2 have "map_of (observerList (stores (wa\<lparr>heap := h\<rparr>) ! i)) p = Some (l @ [f1, f2])"
    by (simp add: handlers_of_def)
  with n have "call_all hs (rev (l @ [f1, f2])) (p, v) (wa\<lparr>heap := h\<rparr>) = (t, Inr w')"
    by (simp add: notify_def)
  then have "call_all hs (f2 # f1 # rev l) (p, v) (wa\<lparr>heap := h\<rparr>) = (t, Inr w')" by simp
  from call_all_two [OF this] obtain k1 k2 u1 u2 earlier where
    f1: "f1 = Fn k1" and f2: "f2 = Fn k2"
    and h2: "hs k2 (p, v) (wa\<lparr>heap := h\<rparr>) = Inr u1" and h1: "hs k1 (p, v) u1 = Inr u2"
    and r: "call_all hs (rev l) (p, v) u2 = (earlier, Inr w')"
    and t: "t = (f2, (p, v)) # (f1, (p, v)) # earlier"
    by (elim exE conjE)
  show ?thesis
    by (intro exI [of _ k1] exI [of _ k2] exI [of _ l] exI [of _ parent] exI [of _ wa]
          exI [of _ h] exI [of _ u1] exI [of _ u2] exI [of _ earlier] conjI)
       (rule f1 f2 l2 g a h2 h1 r t)+
qed

theorem reverse_registration_order_witness:
  "observeConfig 0 (Ref 2) ''p'' (Fn 1) (default_world [[], [], []] [])
     = Inr (default_world [[], [(''bcG'', Ref 4)], [], [(''p'', Num 0)]] [(''p'', [Fn 1])])
   \<and> getObserverIndex 0 (Ref 2) ''p'' (default_world [[], [], []] []) = Inr Undefined
   \<and> js_isNaN Undefined = Inr True
   \<and> observeConfig 0 (Ref 3) ''p'' (Fn 2)
         (default_world [[], [(''bcG'', Ref 4)], [], [(''p'', Num 0)]] [(''p'', [Fn 1])])
     = Inr (default_world [[], [(''bcG'', Ref 4)], [(''bcG'', Ref 5)], [(''p'', Num 0)], [(''p'', Num 1)]]
              [(''p'', [Fn 1, Fn 2])])
   \<and> getObserverIndex 0 (Ref 3) ''p''
         (default_world [[], [(''bcG'', Ref 4)], [], [(''p'', Num 0)]] [(''p'', [Fn 1])])
     = Inr Undefined
   \<and> setConfigProperty (stamp_handlers 0 ''last'') 0 ''p'' (Num 7)
         (default_world [[], [(''bcG'', Ref 4)], [(''bcG'', Ref 5)], [(''p'', Num 0)], [(''p'', Num 1)]]
              [(''p'', [Fn 1, Fn 2])])
     = ([(Fn 2, ''p'', Num 7), (Fn 1, ''p'', Num 7)],
        Inr (default_world [[(''p'', Num 7), (''last'', Num 1)], [(''bcG'', Ref 4)], [(''bcG'', Ref 5)],
                            [(''p'', Num 0)], [(''p'', Num 1)]]
              [(''p'', [Fn 1, Fn 2])]))
   \<and> stamp_handlers 0 ''last'' 2 (''p'', Num 7)
         (default_world [[(''p'', Num 7)], [(''bcG'', Ref 4)], [(''bcG'', Ref 5)],
                         [(''p'', Num 0)], [(''p'', Num 1)]] [(''p'', [Fn 1, Fn 2])])
     = Inr (default_world [[(''p'', Num 7), (''last'', Num 2)], [(''bcG'', Ref 4)], [(''bcG'', Ref 5)],
                           [(''p'', Num 0)], [(''p'', Num 1)]] [(''p'', [Fn 1, Fn 2])])
   \<and> stamp_handlers 0 ''last'' 1 (''p'', Num 7)
         (default_world [[(''p'', Num 7), (''last'', Num 2)], [(''bcG'', Ref 4)], [(''bcG'', Ref 5)],
                         [(''p'', Num 0)], [(''p'', Num 1)]] [(''p'', [Fn 1, Fn 2])])
     = Inr (default_world [[(''p'', Num 7), (''last'', Num 1)], [(''bcG'', Ref 4)], [(''bcG'', Ref 5)],
                           [(''p'', Num 0)], [(''p'', Num 1)]] [(''p'', [Fn 1, Fn 2])])
   \<and> (\<exists>k1 k2 l parent wa h u1 u2 earlier.
           Fn 1 = Fn k1 \<and> Fn 2 = Fn k2
         \<and> handlers_of 0 ''p''
              (default_world [[], [(''bcG'', Ref 4)], [(''bcG'', Ref 5)], [(''p'', Num 0)], [(''p'', Num 1)]]
                 [(''p'', [Fn 1, Fn 2])]) = Some (l @ [Fn 1, Fn 2])
         \<and> getParentObject 0 ''p''
              (default_world [[], [(''bcG'', Ref 4)], [(''bcG'', Ref 5)], [(''p'', Num 0)], [(''p'', Num 1)]]
                 [(''p'', [Fn 1, Fn 2])]) = Inr (parent, wa)
         \<and> js_set (heap wa) parent (getPropertyName ''p'') (Num 7) = Inr h
         \<and> stamp_handlers 0 ''last'' k2 (''p'', Num 7) (wa\<lparr>heap := h\<rparr>) = Inr u1
         \<and> stamp_handlers 0 ''last'' k1 (''p'', Num 7) u1 = Inr u2
         \<and> call_all (stamp_handlers 0 ''last'') (rev l) (''p'', Num 7) u2
             = (earlier,
                Inr (default_world [[(''p'', Num 7), (''last'', Num 1)], [(''bcG'', Ref 4)],
                                    [(''bcG'', Ref 5)], [(''p'', Num 0)], [(''p'', Num 1)]]
                       [(''p'', [Fn 1, Fn 2])]))
         \<and> [(Fn 2, ''p'', Num 7), (Fn 1, ''p'', Num 7)]
             = (Fn 2, (''p'', Num 7)) # (Fn 1, (''p'', Num 7)) # earlier)"
proof -
  let ?wa = "default_world [[], [], []] []"
  let ?wb = "default_world [[], [(''bcG'', Ref 4)], [], [(''p'', Num 0)]] [(''p'', [Fn 1])]"
  let ?wc = "default_world [[], [(''bcG'', Ref 4)], [(''bcG'', Ref 5)], [(''p'', Num 0)], [(''p'', Num 1)]]
              [(''p'', [Fn 1, Fn 2])]"
  let ?ua = "default_world [[(''p'', Num 7)], [(''bcG'', Ref 4)], [(''bcG'', Ref 5)],
                         [(''p'', Num 0)], [(''p'', Num 1)]] [(''p'', [Fn 1, Fn 2])]"
  let ?ub = "default_world [[(''p'', Num 7), (''last'', Num 2)], [(''bcG'', Ref 4)], [(''bcG'', Ref 5)],
                           [(''p'', Num 0)], [(''p'', Num 1)]] [(''p'', [Fn 1, Fn 2])]"
  let ?wd = "default_world [[(''p'', Num 7), (''last'', Num 1)], [(''bcG'', Ref 4)], [(''bcG'', Ref 5)],
                            [(''p'', Num 0)], [(''p'', Num 1)]]
              [(''p'', [Fn 1, Fn 2])]"
  have o1: "observeConfig 0 (Ref 2) ''p'' (Fn 1) ?wa = Inr ?wb" by (simp add: observer_defs)
  have x1: "getObserverIndex 0 (Ref 2) ''p'' ?wa = Inr Undefined" by (simp add: observer_defs)
  have n: "js_isNaN Undefined = Inr True" by simp
  have o2: "observeConfig 0 (Ref 3) ''p'' (Fn 2) ?wb = Inr ?wc" by (simp add: observer_defs)
  have x2: "getObserverIndex 0 (Ref 3) ''p'' ?wb = Inr Undefined" by (simp add: observer_defs)
  have s: "setConfigProperty (stamp_handlers 0 ''last'') 0 ''p'' (Num 7) ?wc
             = ([(Fn 2, ''p'', Num 7), (Fn 1, ''p'', Num 7)], Inr ?wd)"
    by (simp add: stamp_defs)
  have h2: "stamp_handlers 0 ''last'' 2 (''p'', Num 7) ?ua = Inr ?ub" by (simp add: stamp_defs)
  have h1: "stamp_handlers 0 ''last'' 1 (''p'', Num 7) ?ub = Inr ?wd" by (simp add: stamp_defs)
  note c = reverse_registration_order [OF o1 x1 n o2 x2 n s]
  show ?thesis by (intro conjI) (rule o1 x1 n o2 x2 s h2 h1 c)+
qed



text \<open>
  C8. Let two observers have the indices \<open>n1 < n2\<close> recorded for the path, in
  different index tables. After \<open>unobserveConfig(ob1, p)\<close> the handler of \<open>ob2\<close>
  sits at position \<open>n2 - 1\<close> while its recorded index is still \<open>n2\<close>. A later
  \<open>unobserveConfig(ob2, p)\<close> therefore removes position \<open>n2\<close>: nothing when
  \<open>n2\<close> was the last position, the handler of somebody else otherwise. Either way the
  handler of \<open>ob2\<close> stays registered and its index is now invalidated.
\<close>

theorem stale_index_after_removal:
  assumes i: "i < length (stores w)"
    and l: "handlers_of i p w = Some l"
    and t1: "index_table i ob1 w = Some t1"
    and r1: "recorded_index i ob1 p w = Some (Num (int n1))"
    and t2: "index_table i ob2 w = Some t2"
    and r2: "recorded_index i ob2 p w = Some (Num (int n2))"
    and tt: "t1 \<noteq> t2"
    and pk: "p \<noteq> observer_key (stores w ! i)"
    and lt: "n1 < n2" and n2: "n2 < length l"
  shows "\<exists>w1 w2 l1 l2.
           unobserveConfig i ob1 p w = Inr w1
         \<and> handlers_of i p w1 = Some l1 \<and> l1 = take n1 l @ drop (Suc n1) l
         \<and> recorded_index i ob2 p w1 = Some (Num (int n2))
         \<and> l1 ! (n2 - 1) = l ! n2
         \<and> unobserveConfig i ob2 p w1 = Inr w2
         \<and> handlers_of i p w2 = Some l2 \<and> l2 = take n2 l1 @ drop (Suc n2) l1
         \<and> n2 - 1 < length l2 \<and> l2 ! (n2 - 1) = l ! n2
         \<and> recorded_index i ob2 p w2 = Some NaN
         \<and> (Suc n2 = length l \<longrightarrow> l2 = l1)
         \<and> (Suc n2 < length l \<longrightarrow> length l2 < length l1 \<and> l1 ! n2 = l ! Suc n2)"
proof -
  let ?l1 = "take n1 l @ drop (Suc n1) l"
  let ?l2 = "take n2 ?l1 @ drop (Suc n2) ?l1"
  let ?h1 = "(heap w)[t1 := AList.update p NaN (heap w ! t1)]"
  let ?s1 = "(stores w)[i := (stores w ! i)\<lparr>observerList :=
                AList.update p ?l1 (observerList (stores w ! i))\<rparr>]"
  let ?w1 = "w\<lparr>stores := ?s1, heap := ?h1\<rparr>"
  let ?h2 = "?h1[t2 := AList.update p NaN (?h1 ! t2)]"
  let ?s2 = "?s1[i := (?s1 ! i)\<lparr>observerList :=
                AList.update p ?l2 (observerList (?s1 ! i))\<rparr>]"
  let ?w2 = "?w1\<lparr>stores := ?s2, heap := ?h2\<rparr>"
  have u1: "unobserveConfig i ob1 p w = Inr ?w1"
    using unobserve_recorded [OF i l t1 r1] by (simp add: splice1_nat)
  have i1: "i < length (stores ?w1)" using i by simp
  have l1: "handlers_of i p ?w1 = Some ?l1"
    using i by (simp add: handlers_of_def update_conv')
  have key1: "observer_key (stores ?w1 ! i) = observer_key (stores w ! i)"
    using i by (simp add: observer_key_def)
  from t1 have lt1: "t1 < length (heap w)" using index_table_get by blast
  from t2 have g2: "js_get (heap w) ob2 (observer_key (stores w ! i)) = Inr (Ref t2)"
    and lt2: "t2 < length (heap w)"
    using index_table_get by blast+
  have set1: "js_set (heap w) (Ref t1) p NaN = Inr ?h1"
  proof -
    from r1 t1 have "map_of (heap w ! t1) p = Some (Num (int n1))"
      by (simp add: recorded_index_def)
    with lt1 show ?thesis by simp
  qed
  have "js_get ?h1 ob2 (observer_key (stores w ! i)) = js_get (heap w) ob2 (observer_key (stores w ! i))"
    using set1 pk [symmetric] by (rule js_get_set_other)
  with g2 have g2': "js_get (heap ?w1) ob2 (observer_key (stores ?w1 ! i)) = Inr (Ref t2)"
    by (simp only: key1) simp
  have t2': "index_table i ob2 ?w1 = Some t2"
    unfolding index_table_def using g2' lt2 by (simp del: js_get.simps)
  from r2 t2 have own2: "map_of (heap w ! t2) p = Some (Num (int n2))"
    by (simp add: recorded_index_def)
  have r2': "recorded_index i ob2 p ?w1 = Some (Num (int n2))"
    using t2' own2 tt by (simp add: recorded_index_def)
  have d: "?l1 ! (n2 - 1) = l ! n2" using lt n2 by (rule removed_before_nth)
  have u2: "unobserveConfig i ob2 p ?w1 = Inr ?w2"
    using unobserve_recorded [OF i1 l1 t2' r2'] by (simp add: splice1_nat)
  have l2: "handlers_of i p ?w2 = Some ?l2"
    using i by (simp add: handlers_of_def update_conv')
  have len1: "length ?l1 = length l - 1" using lt n2 by simp
  have g1: "n2 - 1 < length ?l2" using lt n2 by (auto simp: min_def)
  have g: "?l2 ! (n2 - 1) = l ! n2"
  proof -
    have "n2 - 1 < length (take n2 ?l1)" using lt n2 by (auto simp: min_def)
    then have "?l2 ! (n2 - 1) = take n2 ?l1 ! (n2 - 1)" by (simp only: nth_append if_True)
    also have "\<dots> = ?l1 ! (n2 - 1)" using lt by (intro nth_take) simp
    finally show ?thesis using d by simp
  qed
  have key2: "observer_key (stores ?w2 ! i) = observer_key (stores w ! i)"
    using i by (simp add: observer_key_def)
  have lt2': "t2 < length ?h1" using lt2 by simp
  have own2': "map_of (?h1 ! t2) p = Some (Num (int n2))" using own2 tt by simp
  have set2: "js_set ?h1 (Ref t2) p NaN = Inr ?h2" using lt2' own2' by simp
  have "js_get ?h2 ob2 (observer_key (stores w ! i)) = js_get ?h1 ob2 (observer_key (stores w ! i))"
    using set2 pk [symmetric] by (rule js_get_set_other)
  with g2' have g2'': "js_get (heap ?w2) ob2 (observer_key (stores ?w2 ! i)) = Inr (Ref t2)"
    by (simp only: key1 key2) simp
  have t2'': "index_table i ob2 ?w2 = Some t2"
    unfolding index_table_def using g2'' lt2 by (simp del: js_get.simps)
  have rn: "recorded_index i ob2 p ?w2 = Some NaN"
    using t2'' lt2 by (simp add: recorded_index_def update_conv')
  have h1: "Suc n2 = length l \<longrightarrow> ?l2 = ?l1" using lt by (auto simp: min_def)
  have h2: "Suc n2 < length l \<longrightarrow> length ?l2 < length ?l1 \<and> ?l1 ! n2 = l ! Suc n2"
    using lt removed_before_next [of n1 n2 l] by (auto simp: min_def)
  show ?thesis
    by (intro exI [of _ ?w1] exI [of _ ?w2] exI [of _ ?l1] exI [of _ ?l2] conjI)
       (rule u1 l1 refl r2' d u2 l2 g1 g rn h1 h2)+
qed

theorem stale_index_after_removal_witness:
  "handlers_of 0 ''p''
     (default_world [[], [(''bcG'', Ref 5)], [(''bcG'', Ref 6)], [(''bcG'', Ref 7)],
                     [(''p'', Num 0)], [(''p'', Num 1)], [(''p'', Num 2)]]
        [(''p'', [Fn 1, Fn 2, Fn 3])]) = Some [Fn 1, Fn 2, Fn 3]
   \<and> recorded_index 0 (Ref 2) ''p''
     (default_world [[], [(''bcG'', Ref 5)], [(''bcG'', Ref 6)], [(''bcG'', Ref 7)],
                     [(''p'', Num 0)], [(''p'', Num 1)], [(''p'', Num 2)]]
        [(''p'', [Fn 1, Fn 2, Fn 3])]) = Some (Num 0)
   \<and> recorded_index 0 (Ref 3) ''p''
     (default_world [[], [(''bcG'', Ref 5)], [(''bcG'', Ref 6)], [(''bcG'', Ref 7)],
                     [(''p'', Num 0)], [(''p'', Num 1)], [(''p'', Num 2)]]
        [(''p'', [Fn 1, Fn 2, Fn 3])]) = Some (Num 1)
   \<and> unobserveConfig 0 (Ref 2) ''p''
     (default_world [[], [(''bcG'', Ref 5)], [(''bcG'', Ref 6)], [(''bcG'', Ref 7)],
                     [(''p'', Num 0)], [(''p'', Num 1)], [(''p'', Num 2)]]
        [(''p'', [Fn 1, Fn 2, Fn 3])])
     = Inr (default_world [[], [(''bcG'', Ref 5)], [(''bcG'', Ref 6)], [(''bcG'', Ref 7)],
                     [(''p'', NaN)], [(''p'', Num 1)], [(''p'', Num 2)]]
        [(''p'', [Fn 2, Fn 3])])
   \<and> unobserveConfig 0 (Ref 3) ''p''
     (default_world [[], [(''bcG'', Ref 5)], [(''bcG'', Ref 6)], [(''bcG'', Ref 7)],
                     [(''p'', NaN)], [(''p'', Num 1)], [(''p'', Num 2)]]
        [(''p'', [Fn 2, Fn 3])])
     = Inr (default_world [[], [(''bcG'', Ref 5)], [(''bcG'', Ref 6)], [(''bcG'', Ref 7)],
                     [(''p'', NaN)], [(''p'', NaN)], [(''p'', Num 2)]]
        [(''p'', [Fn 2])])
   \<and> handlers_of 0 ''p''
     (default_world [[], [(''bcG'', Ref 4)], [(''bcG'', Ref 5)], [(''p'', Num 0)], [(''p'', Num 1)]]
        [(''p'', [Fn 1, Fn 2])]) = Some [Fn 1, Fn 2]
   \<and> unobserveConfig 0 (Ref 2) ''p''
     (default_world [[], [(''bcG'', Ref 4)], [(''bcG'', Ref 5)], [(''p'', Num 0)], [(''p'', Num 1)]]
        [(''p'', [Fn 1, Fn 2])])
     = Inr (default_world [[], [(''bcG'', Ref 4)], [(''bcG'', Ref 5)], [(''p'', NaN)], [(''p'', Num 1)]]
        [(''p'', [Fn 2])])
   \<and> unobserveConfig 0 (Ref 3) ''p''
     (default_world [[], [(''bcG'', Ref 4)], [(''bcG'', Ref 5)], [(''p'', NaN)], [(''p'', Num 1)]]
        [(''p'', [Fn 2])])
     = Inr (default_world [[], [(''bcG'', Ref 4)], [(''bcG'', Ref 5)], [(''p'', NaN)], [(''p'', NaN)]]
        [(''p'', [Fn 2])])
   \<and> recorded_index 0 (Ref 3) ''p''
     (default_world [[], [(''bcG'', Ref 5)], [(''bcG'', Ref 6)], [(''bcG'', Ref 7)],
                     [(''p'', NaN)], [(''p'', Num 1)], [(''p'', Num 2)]]
        [(''p'', [Fn 2, Fn 3])]) = Some (Num 1)
   \<and> recorded_index 0 (Ref 3) ''p''
     (default_world [[], [(''bcG'', Ref 4)], [(''bcG'', Ref 5)], [(''p'', NaN)], [(''p'', Num 1)]]
        [(''p'', [Fn 2])]) = Some (Num 1)"
proof -
  let ?w = "default_world [[], [(''bcG'', Ref 5)], [(''bcG'', Ref 6)], [(''bcG'', Ref 7)],
                     [(''p'', Num 0)], [(''p'', Num 1)], [(''p'', Num 2)]]
        [(''p'', [Fn 1, Fn 2, Fn 3])]"
  let ?wa = "default_world [[], [(''bcG'', Ref 5)], [(''bcG'', Ref 6)], [(''bcG'', Ref 7)],
                     [(''p'', NaN)], [(''p'', Num 1)], [(''p'', Num 2)]]
        [(''p'', [Fn 2, Fn 3])]"
  let ?wb = "default_world [[], [(''bcG'', Ref 5)], [(''bcG'', Ref 6)], [(''bcG'', Ref 7)],
                     [(''p'', NaN)], [(''p'', NaN)], [(''p'', Num 2)]]
        [(''p'', [Fn 2])]"
  let ?v = "default_world [[], [(''bcG'', Ref 4)], [(''bcG'', Ref 5)], [(''p'', Num 0)], [(''p'', Num 1)]]
        [(''p'', [Fn 1, Fn 2])]"
  let ?va = "default_world [[], [(''bcG'', Ref 4)], [(''bcG'', Ref 5)], [(''p'', NaN)], [(''p'', Num 1)]]
        [(''p'', [Fn 2])]"
  let ?vb = "default_world [[], [(''bcG'', Ref 4)], [(''bcG'', Ref 5)], [(''p'', NaN)], [(''p'', NaN)]]
        [(''p'', [Fn 2])]"
  have i: "0 < length (stores ?w)" by (simp add: observer_defs)
  have l: "handlers_of 0 ''p'' ?w = Some [Fn 1, Fn 2, Fn 3]" by (simp add: observer_defs)
  have t1: "index_table 0 (Ref 2) ?w = Some 5" by (simp add: observer_defs)
  have r1: "recorded_index 0 (Ref 2) ''p'' ?w = Some (Num (int 0))" by (simp add: observer_defs)
  have t2: "index_table 0 (Ref 3) ?w = Some 6" by (simp add: observer_defs)
  have r2: "recorded_index 0 (Ref 3) ''p'' ?w = Some (Num (int 1))" by (simp add: observer_defs)
  have tt: "(5::nat) \<noteq> 6" by simp
  have pk: "''p'' \<noteq> observer_key (stores ?w ! 0)" by (simp add: observer_defs)
  have lt: "(0::nat) < 1" by simp
  have n2: "1 < length [Fn 1, Fn 2, Fn 3]" by simp
  have e1: "unobserveConfig 0 (Ref 2) ''p'' ?w = Inr ?wa" by (simp add: observer_defs)
  from stale_index_after_removal [OF i l t1 r1 t2 r2 tt pk lt n2]
  obtain w1 where u1: "unobserveConfig 0 (Ref 2) ''p'' ?w = Inr w1"
    and c1: "recorded_index 0 (Ref 3) ''p'' w1 = Some (Num (int 1))"
    by (elim exE conjE)
  from u1 e1 have "w1 = ?wa" by simp
  with c1 have k1: "recorded_index 0 (Ref 3) ''p'' ?wa = Some (Num 1)" by simp
  have e2: "unobserveConfig 0 (Ref 3) ''p'' ?wa = Inr ?wb" by (simp add: observer_defs)
  have j: "0 < length (stores ?v)" by (simp add: observer_defs)
  have m: "handlers_of 0 ''p'' ?v = Some [Fn 1, Fn 2]" by (simp add: observer_defs)
  have s1: "index_table 0 (Ref 2) ?v = Some 4" by (simp add: observer_defs)
  have q1: "recorded_index 0 (Ref 2) ''p'' ?v = Some (Num (int 0))" by (simp add: observer_defs)
  have s2: "index_table 0 (Ref 3) ?v = Some 5" by (simp add: observer_defs)
  have q2: "recorded_index 0 (Ref 3) ''p'' ?v = Some (Num (int 1))" by (simp add: observer_defs)
  have ss: "(4::nat) \<noteq> 5" by simp
  have qk: "''p'' \<noteq> observer_key (stores ?v ! 0)" by (simp add: observer_defs)
  have m2: "1 < length [Fn 1, Fn 2]" by simp
  have f1: "unobserveConfig 0 (Ref 2) ''p'' ?v = Inr ?va" by (simp add: observer_defs)
  from stale_index_after_removal [OF j m s1 q1 s2 q2 ss qk lt m2]
  obtain v1 where g1: "unobserveConfig 0 (Ref 2) ''p'' ?v = Inr v1"
    and d1: "recorded_index 0 (Ref 3) ''p'' v1 = Some (Num (int 1))"
    by (elim exE conjE)
  from g1 f1 have "v1 = ?va" by simp
  with d1 have k2: "recorded_index 0 (Ref 3) ''p'' ?va = Some (Num 1)" by simp
  have f2: "unobserveConfig 0 (Ref 3) ''p'' ?va = Inr ?vb" by (simp add: observer_defs)
  have r1': "recorded_index 0 (Ref 2) ''p'' ?w = Some (Num 0)" using r1 by simp
  have r2': "recorded_index 0 (Ref 3) ''p'' ?w = Some (Num 1)" using r2 by simp
  show ?thesis by (intro conjI) (rule l r1' r2' e1 e2 m f1 f2 k1 k2)+
qed

text \<open>
  C4. The scenario in which the code departs from the claim: \<open>o1\<close> and \<open>o2\<close>
  observe \<open>p\<close>, then \<open>unobserveConfig(o1, p)\<close> and \<open>unobserveConfig(o2, p)\<close>.
  The second call removes nothing, and the next \<open>setConfigProperty(p, 7)\<close> still calls
  the handler of \<open>o2\<close>.
\<close>

theorem unobserved_handler_still_called:
  "observeConfig 0 (Ref 2) ''p'' (Fn 1) (default_world [[], [], []] [])
     = Inr (default_world [[], [(''bcG'', Ref 4)], [], [(''p'', Num 0)]] [(''p'', [Fn 1])])
   \<and> observeConfig 0 (Ref 3) ''p'' (Fn 2)
         (default_world [[], [(''bcG'', Ref 4)], [], [(''p'', Num 0)]] [(''p'', [Fn 1])])
     = Inr (default_world [[], [(''bcG'', Ref 4)], [(''bcG'', Ref 5)], [(''p'', Num 0)], [(''p'', Num 1)]]
              [(''p'', [Fn 1, Fn 2])])
   \<and> unobserveConfig 0 (Ref 2) ''p''
         (default_world [[], [(''bcG'', Ref 4)], [(''bcG'', Ref 5)], [(''p'', Num 0)], [(''p'', Num 1)]]
              [(''p'', [Fn 1, Fn 2])])
     = Inr (default_world [[], [(''bcG'', Ref 4)], [(''bcG'', Ref 5)], [(''p'', NaN)], [(''p'', Num 1)]]
              [(''p'', [Fn 2])])
   \<and> unobserveConfig 0 (Ref 3) ''p''
         (default_world [[], [(''bcG'', Ref 4)], [(''bcG'', Ref 5)], [(''p'', NaN)], [(''p'', Num 1)]]
              [(''p'', [Fn 2])])
     = Inr (default_world [[], [(''bcG'', Ref 4)], [(''bcG'', Ref 5)], [(''p'', NaN)], [(''p'', NaN)]]
              [(''p'', [Fn 2])])
   \<and> setConfigProperty pure_handlers 0 ''p'' (Num 7)
         (default_world [[], [(''bcG'', Ref 4)], [(''bcG'', Ref 5)], [(''p'', NaN)], [(''p'', NaN)]]
              [(''p'', [Fn 2])])
     = ([(Fn 2, ''p'', Num 7)],
        Inr (default_world [[(''p'', Num 7)], [(''bcG'', Ref 4)], [(''bcG'', Ref 5)], [(''p'', NaN)], [(''p'', NaN)]]
              [(''p'', [Fn 2])]))"
  by (simp add: observer_defs)

section \<open>Traversal through a primitive\<close>

text \<open>
  C10. The read and the write are not total on reachable states. After
  \<open>setConfigProperty('a', 5)\<close> on the freshly loaded module, the root holds the number
  5 under \<open>a\<close>; \<open>getConfigProperty('a.b.c')\<close> and
  \<open>setConfigProperty('a.b.c', v)\<close> then reach \<open>5['b'] = {}\<close> inside
  \<open>getParentObject\<close>, which throws a TypeError in strict mode: the read does not
  return the absent marker and the write stores nothing and notifies nobody.
\<close>

theorem traversal_through_number_throws:
  "\<exists>w. setConfigProperty hs 0 ''a'' (Num 5) (module_init gid) = ([], Inr w)
      \<and> getConfigProperty 0 ''a.b.c'' w = Inl TypeError
      \<and> setConfigProperty hs 0 ''a.b.c'' v w = ([], Inl TypeError)"
  by (simp add: store_defs)

end
